theory Spec2Isabelle
  imports Complex_Main
begin

section \<open>Calendar dates (datetime.date)\<close>

text \<open>
  The analyzer stores every date as a Python \<open>datetime.date\<close>: a triple of year, month
  and day that the constructor checks (\<open>ValueError\<close> when the triple is no calendar
  day), compared as that triple, and subtracted through its proleptic Gregorian ordinal.
  The functions below follow the standard library's \<open>_is_leap\<close>, \<open>_days_before_year\<close>,
  \<open>_days_in_month\<close>, \<open>_days_before_month\<close> and \<open>_ymd2ord\<close>.
\<close>

record date =
  year :: int
  month :: int
  day :: int

datatype error = ValueError

definition is_leap :: "int \<Rightarrow> bool" where
  "is_leap y = (y mod 4 = 0 \<and> (y mod 100 \<noteq> 0 \<or> y mod 400 = 0))"

definition days_before_year :: "int \<Rightarrow> int" where
  "days_before_year y = (y - 1) * 365 + (y - 1) div 4 - (y - 1) div 100 + (y - 1) div 400"

definition days_in_month :: "int \<Rightarrow> int \<Rightarrow> int" where
  "days_in_month y m =
     (if m = 2 \<and> is_leap y then 29
      else if m = 2 then 28
      else if m = 4 \<or> m = 6 \<or> m = 9 \<or> m = 11 then 30
      else 31)"

definition days_before_month :: "int \<Rightarrow> int \<Rightarrow> int" where
  "days_before_month y m =
     (if m = 1 then 0 else if m = 2 then 31 else if m = 3 then 59 else if m = 4 then 90
      else if m = 5 then 120 else if m = 6 then 151 else if m = 7 then 181
      else if m = 8 then 212 else if m = 9 then 243 else if m = 10 then 273
      else if m = 11 then 304 else 334)
     + (if 2 < m \<and> is_leap y then 1 else 0)"

definition toordinal :: "date \<Rightarrow> int" where
  "toordinal d = days_before_year (year d) + days_before_month (year d) (month d) + day d"

definition valid_date :: "date \<Rightarrow> bool" where
  "valid_date d =
     (1 \<le> year d \<and> year d \<le> 9999 \<and> 1 \<le> month d \<and> month d \<le> 12
      \<and> 1 \<le> day d \<and> day d \<le> days_in_month (year d) (month d))"

text \<open>\<open>date(y, m, d)\<close>: the checked constructor.\<close>

definition mk_date :: "int \<Rightarrow> int \<Rightarrow> int \<Rightarrow> error + date" where
  "mk_date y m d =
     (let r = \<lparr>year = y, month = m, day = d\<rparr>
      in if valid_date r then Inr r else Inl ValueError)"

text \<open>\<open>a < b\<close> and \<open>a <= b\<close> on dates compare the triples.\<close>

definition date_lt :: "date \<Rightarrow> date \<Rightarrow> bool" where
  "date_lt a b =
     (year a < year b
      \<or> (year a = year b \<and> (month a < month b \<or> (month a = month b \<and> day a < day b))))"

definition date_le :: "date \<Rightarrow> date \<Rightarrow> bool" where
  "date_le a b = (a = b \<or> date_lt a b)"

text \<open>\<open>(a - b).days\<close>\<close>

definition days_between :: "date \<Rightarrow> date \<Rightarrow> int" where
  "days_between a b = toordinal a - toordinal b"

definition date_min :: date where
  "date_min = \<lparr>year = 1, month = 1, day = 1\<rparr>"

section \<open>models.py\<close>

record ExperienceRecord =
  source :: string
  employer :: "string option"
  start_date :: "date option"
  end_date :: "date option"
  issue_date :: "date option"
  effective_end_date :: "date option"
  experience_days :: "int option"

text \<open>Python's \<open>min\<close> over a non-empty list keeps the first of the smallest elements.\<close>

fun min_date :: "date \<Rightarrow> date list \<Rightarrow> date" where
  "min_date best [] = best"
| "min_date best (d # ds) = min_date (if date_lt d best then d else best) ds"

text \<open>\<open>_compute_effective_end\<close>\<close>

definition compute_effective_end ::
  "date option \<Rightarrow> date option \<Rightarrow> date option \<Rightarrow> date option" where
  "compute_effective_end start_d end_d issue_d =
     (case start_d of
        None \<Rightarrow> None
      | Some _ \<Rightarrow>
          (case List.map_filter id [end_d, issue_d] of
             [] \<Rightarrow> None
           | c # cs \<Rightarrow> Some (min_date c cs)))"

text \<open>\<open>_compute_days\<close>\<close>

definition compute_days :: "date option \<Rightarrow> date option \<Rightarrow> int option" where
  "compute_days start_d end_d =
     (case start_d of
        None \<Rightarrow> None
      | Some s \<Rightarrow>
          (case end_d of
             None \<Rightarrow> None
           | Some e \<Rightarrow> if date_lt e s then Some 0 else Some (days_between e s + 1)))"

text \<open>\<open>ExperienceRecord.__post_init__\<close>: both derived fields are recomputed from the raw dates.\<close>

definition post_init :: "ExperienceRecord \<Rightarrow> ExperienceRecord" where
  "post_init r =
     (let eff = compute_effective_end (start_date r) (end_date r) (issue_date r)
      in r\<lparr>effective_end_date := eff, experience_days := compute_days (start_date r) eff\<rparr>)"

text \<open>
  The dataclass constructor \<open>ExperienceRecord(source, employer, start_date, end_date,
  issue_date)\<close>: the generated \<open>__init__\<close> stores the five arguments and calls
  \<open>__post_init__\<close>.
\<close>

definition new_ExperienceRecord ::
  "string \<Rightarrow> string option \<Rightarrow> date option \<Rightarrow> date option \<Rightarrow> date option \<Rightarrow> ExperienceRecord" where
  "new_ExperienceRecord src emp start_d end_d issue_d =
     post_init \<lparr>source = src, employer = emp, start_date = start_d, end_date = end_d,
       issue_date = issue_d, effective_end_date = None, experience_days = None\<rparr>"

section \<open>Text\<close>

text \<open>
  A Python \<open>str\<close> is a sequence of code points. The model takes the code points of
  Latin-1, one \<open>char\<close> each (not UTF-8 bytes): the range holds every character the
  analyzer's tables and patterns name. A character outside ASCII is written by its code
  point, \<open>CHR 0xF1\<close> for n with tilde. The classes below are those of \<open>str.lower\<close>,
  \<open>str.isspace\<close> (also the set that \<open>str.strip()\<close> removes and that \<open>\s\<close> matches) and
  \<open>str.isalnum\<close> on that range.
\<close>

definition in_range :: "char \<Rightarrow> nat \<Rightarrow> nat \<Rightarrow> bool" where
  "in_range c lo hi = (lo \<le> of_char c \<and> (of_char c :: nat) \<le> hi)"

definition is_upper :: "char \<Rightarrow> bool" where
  "is_upper c = (in_range c 0x41 0x5A \<or> in_range c 0xC0 0xD6 \<or> in_range c 0xD8 0xDE)"

text \<open>Lower case is 32 code points above upper case on this range: bit 5 is set.\<close>

definition lower_char :: "char \<Rightarrow> char" where
  "lower_char c =
     (if is_upper c
      then Char (digit0 c) (digit1 c) (digit2 c) (digit3 c) (digit4 c) True (digit6 c) (digit7 c)
      else c)"

definition lower :: "string \<Rightarrow> string" where
  "lower s = map lower_char s"

definition isspace :: "char \<Rightarrow> bool" where
  "isspace c = (in_range c 0x09 0x0D \<or> in_range c 0x1C 0x20 \<or> c = CHR 0x85 \<or> c = CHR 0xA0)"

definition isalnum :: "char \<Rightarrow> bool" where
  "isalnum c =
     (in_range c 0x30 0x39 \<or> in_range c 0x41 0x5A \<or> in_range c 0x61 0x7A
      \<or> c = CHR 0xAA \<or> in_range c 0xB2 0xB3 \<or> c = CHR 0xB5 \<or> in_range c 0xB9 0xBA
      \<or> in_range c 0xBC 0xBE \<or> in_range c 0xC0 0xD6 \<or> in_range c 0xD8 0xF6
      \<or> in_range c 0xF8 0xFF)"

text \<open>\<open>s.strip()\<close>\<close>

definition strip :: "string \<Rightarrow> string" where
  "strip s = rev (dropWhile isspace (rev (dropWhile isspace s)))"

text \<open>\<open>s.replace(src, dest)\<close> for one-character \<open>src\<close> and \<open>dest\<close>\<close>

definition replace_char :: "char \<Rightarrow> char \<Rightarrow> string \<Rightarrow> string" where
  "replace_char src dest s = map (\<lambda>c. if c = src then dest else c) s"

section \<open>difflib.SequenceMatcher\<close>

text \<open>
  The similarity of two names is \<open>SequenceMatcher(None, a, b).ratio()\<close> of the standard
  library: twice the number of matched characters over the sum of the lengths. The
  functions of the comparer take the measure as a parameter; \<open>seq_ratio\<close> below follows the
  library's algorithm and stands for it wherever a concrete input is evaluated.
\<close>

text \<open>
  With \<open>isjunk = None\<close> nothing is junk. With \<open>autojunk\<close>, its default, an element of a
  \<open>b\<close> of 200 or more elements that occurs more than \<open>len(b) // 100 + 1\<close> times is popular
  and is left out of the index \<open>b2j\<close>.
\<close>

definition popular :: "string \<Rightarrow> char \<Rightarrow> bool" where
  "popular b c = (200 \<le> length b \<and> length b div 100 + 1 < count_list b c)"

text \<open>
  The positions the inner loop of \<open>find_longest_match\<close> visits for \<open>a[i]\<close>: those of
  \<open>b2j[a[i]]\<close>, ascending, from \<open>blo\<close> up to \<open>bhi\<close>.
\<close>

definition b2j_range :: "string \<Rightarrow> string \<Rightarrow> nat \<Rightarrow> nat \<Rightarrow> nat \<Rightarrow> nat list" where
  "b2j_range a b i blo bhi = filter (\<lambda>j. b ! j = a ! i \<and> \<not> popular b (b ! j)) [blo..<bhi]"

text \<open>
  One pass of the inner loop: \<open>newj2len[j] = j2len.get(j - 1, 0) + 1\<close>, and the best block is
  replaced when the new length is greater. No key is negative, so \<open>j = 0\<close> reads the
  default.
\<close>

fun flm_row ::
  "(nat \<Rightarrow> nat) \<Rightarrow> nat \<Rightarrow> nat list \<Rightarrow> (nat \<Rightarrow> nat) \<times> nat \<times> nat \<times> nat
     \<Rightarrow> (nat \<Rightarrow> nat) \<times> nat \<times> nat \<times> nat" where
  "flm_row j2len i [] st = st"
| "flm_row j2len i (j # js) (newj2len, besti, bestj, bestsize) =
     (let k = (if j = 0 then 0 else j2len (j - 1)) + 1
      in flm_row j2len i js
           (newj2len(j := k),
            if bestsize < k then (i + 1 - k, j + 1 - k, k) else (besti, bestj, bestsize)))"

text \<open>The loop over \<open>i\<close> in \<open>range(alo, ahi)\<close>, with a fresh \<open>newj2len\<close> for each \<open>i\<close>.\<close>

fun flm_rows ::
  "string \<Rightarrow> string \<Rightarrow> nat \<Rightarrow> nat \<Rightarrow> nat list \<Rightarrow> (nat \<Rightarrow> nat) \<times> nat \<times> nat \<times> nat
     \<Rightarrow> (nat \<Rightarrow> nat) \<times> nat \<times> nat \<times> nat" where
  "flm_rows a b blo bhi [] st = st"
| "flm_rows a b blo bhi (i # is) (j2len, best) =
     flm_rows a b blo bhi is (flm_row j2len i (b2j_range a b i blo bhi) (\<lambda>_. 0, best))"

text \<open>
  The two loops that extend the block over equal elements on each side. The two loops
  after them extend over junk only, and there is none.
\<close>

fun extend_left :: "string \<Rightarrow> string \<Rightarrow> nat \<Rightarrow> nat \<Rightarrow> nat \<Rightarrow> nat \<Rightarrow> nat \<Rightarrow> nat \<times> nat \<times> nat" where
  "extend_left a b alo blo besti bestj bestsize =
     (if alo < besti \<and> blo < bestj \<and> a ! (besti - 1) = b ! (bestj - 1)
      then extend_left a b alo blo (besti - 1) (bestj - 1) (bestsize + 1)
      else (besti, bestj, bestsize))"

function extend_right :: "string \<Rightarrow> string \<Rightarrow> nat \<Rightarrow> nat \<Rightarrow> nat \<Rightarrow> nat \<Rightarrow> nat \<Rightarrow> nat \<times> nat \<times> nat" where
  "extend_right a b ahi bhi besti bestj bestsize =
     (if besti + bestsize < ahi \<and> bestj + bestsize < bhi
         \<and> a ! (besti + bestsize) = b ! (bestj + bestsize)
      then extend_right a b ahi bhi besti bestj (bestsize + 1)
      else (besti, bestj, bestsize))"
  by pat_completeness auto
termination
  by (relation "measure (\<lambda>(a, b, ahi, bhi, besti, bestj, bestsize). ahi - (besti + bestsize))") auto

definition find_longest_match ::
  "string \<Rightarrow> string \<Rightarrow> nat \<Rightarrow> nat \<Rightarrow> nat \<Rightarrow> nat \<Rightarrow> nat \<times> nat \<times> nat" where
  "find_longest_match a b alo ahi blo bhi =
     (case snd (flm_rows a b blo bhi [alo..<ahi] (\<lambda>_. 0, alo, blo, 0)) of
        (besti, bestj, bestsize) \<Rightarrow>
          (case extend_left a b alo blo besti bestj bestsize of
             (besti, bestj, bestsize) \<Rightarrow> extend_right a b ahi bhi besti bestj bestsize))"

declare extend_left.simps [simp del] extend_right.simps [simp del]

text \<open>
  The block that \<open>find_longest_match\<close> returns lies inside \<open>a[alo:ahi]\<close>; the recursion of
  \<open>get_matching_blocks\<close> ends for that reason.
\<close>

lemma flm_row_inv:
  assumes "alo \<le> i" "i < ahi" "\<forall>j. j2len j \<le> i - alo"
  shows "(\<forall>j. n j \<le> i + 1 - alo) \<Longrightarrow> alo \<le> bi \<Longrightarrow> bi + bs \<le> ahi \<Longrightarrow>
    (case flm_row j2len i js (n, bi, bj, bs) of
       (n', bi', bj', bs') \<Rightarrow> (\<forall>j. n' j \<le> i + 1 - alo) \<and> alo \<le> bi' \<and> bi' + bs' \<le> ahi)"
proof (induction js arbitrary: n bi bj bs)
  case Nil
  then show ?case by simp
next
  case (Cons j js)
  define k where "k = (if j = 0 then 0 else j2len (j - 1)) + 1"
  have "(if j = 0 then 0 else j2len (j - 1)) \<le> i - alo"
    using assms(3) by simp
  then have k: "1 \<le> k" "k \<le> i + 1 - alo"
    using assms(1) by (simp_all add: k_def)
  have n': "\<forall>ja. (n(j := k)) ja \<le> i + 1 - alo"
    using Cons.prems(1) k by simp
  show ?case
  proof (cases "bs < k")
    case True
    have step: "flm_row j2len i (j # js) (n, bi, bj, bs)
        = flm_row j2len i js (n(j := k), i + 1 - k, j + 1 - k, k)"
      by (simp only: flm_row.simps Let_def k_def [symmetric] True if_True)
    have "alo \<le> i + 1 - k" "i + 1 - k + k \<le> ahi"
      using k assms(1,2) by simp_all
    from Cons.IH [OF n' this] show ?thesis by (simp only: step)
  next
    case False
    have step: "flm_row j2len i (j # js) (n, bi, bj, bs)
        = flm_row j2len i js (n(j := k), bi, bj, bs)"
      by (simp only: flm_row.simps Let_def k_def [symmetric] False if_False)
    from Cons.IH [OF n' Cons.prems(2,3)] show ?thesis by (simp only: step)
  qed
qed

lemma flm_rows_inv:
  "(\<forall>i \<in> set rows. alo \<le> i \<and> i < ahi) \<Longrightarrow> sorted_wrt (<) rows \<Longrightarrow>
   (\<forall>j. j2len j \<le> (case rows of [] \<Rightarrow> ahi | i # _ \<Rightarrow> i) - alo) \<Longrightarrow>
   alo \<le> bi \<Longrightarrow> bi + bs \<le> ahi \<Longrightarrow>
   (case flm_rows a b blo bhi rows (j2len, bi, bj, bs) of
      (n', bi', bj', bs') \<Rightarrow> alo \<le> bi' \<and> bi' + bs' \<le> ahi)"
proof (induction rows arbitrary: j2len bi bj bs)
  case Nil
  then show ?case by simp
next
  case (Cons i rows)
  obtain n' bi' bj' bs' where
    row: "flm_row j2len i (b2j_range a b i blo bhi) (\<lambda>_. 0, bi, bj, bs) = (n', bi', bj', bs')"
    by (metis prod_cases4)
  have i: "alo \<le> i" "i < ahi" using Cons.prems(1) by simp_all
  have "\<forall>j. j2len j \<le> i - alo" using Cons.prems(3) by simp
  from flm_row_inv [OF i this, of "\<lambda>_. 0" bi bs "b2j_range a b i blo bhi" bj] Cons.prems(4,5) row
  have inv: "\<forall>j. n' j \<le> i + 1 - alo" "alo \<le> bi'" "bi' + bs' \<le> ahi"
    by simp_all
  have next_bound: "\<forall>j. n' j \<le> (case rows of [] \<Rightarrow> ahi | i' # _ \<Rightarrow> i') - alo"
  proof (cases rows)
    case Nil
    have "i + 1 - alo \<le> ahi - alo" using i by simp
    with inv(1) Nil show ?thesis by (auto intro: order_trans)
  next
    case (Cons i' rows')
    with \<open>sorted_wrt (<) (i # rows)\<close> have "i < i'" by simp
    then have "i + 1 - alo \<le> i' - alo" by simp
    with inv(1) Cons show ?thesis by (auto intro: order_trans)
  qed
  have "flm_rows a b blo bhi (i # rows) (j2len, bi, bj, bs)
      = flm_rows a b blo bhi rows (n', bi', bj', bs')"
    by (simp add: row)
  moreover have "case flm_rows a b blo bhi rows (n', bi', bj', bs') of
      (n'', bi'', bj'', bs'') \<Rightarrow> alo \<le> bi'' \<and> bi'' + bs'' \<le> ahi"
    using Cons.prems(1,2) by (intro Cons.IH next_bound inv) simp_all
  ultimately show ?case by simp
qed

lemma extend_left_inv:
  "alo \<le> bi \<Longrightarrow> bi + bs \<le> ahi \<Longrightarrow>
   (case extend_left a b alo blo bi bj bs of (bi', bj', bs') \<Rightarrow> alo \<le> bi' \<and> bi' + bs' \<le> ahi)"
proof (induction a b alo blo bi bj bs rule: extend_left.induct)
  case (1 a b alo blo besti bestj bestsize)
  show ?case
  proof (cases "alo < besti \<and> blo < bestj \<and> a ! (besti - 1) = b ! (bestj - 1)")
    case True
    have "alo \<le> besti - 1" "besti - 1 + (bestsize + 1) \<le> ahi"
      using True "1.prems" by linarith+
    from "1.IH" [OF True this] show ?thesis
      using True by (subst extend_left.simps) simp
  next
    case False
    then show ?thesis
      using "1.prems" by (subst extend_left.simps) auto
  qed
qed

lemma extend_right_inv:
  "alo \<le> bi \<Longrightarrow> bi + bs \<le> ahi \<Longrightarrow>
   (case extend_right a b ahi bhi bi bj bs of (bi', bj', bs') \<Rightarrow> alo \<le> bi' \<and> bi' + bs' \<le> ahi)"
proof (induction a b ahi bhi bi bj bs rule: extend_right.induct)
  case (1 a b ahi bhi besti bestj bestsize)
  show ?case
  proof (cases "besti + bestsize < ahi \<and> bestj + bestsize < bhi
         \<and> a ! (besti + bestsize) = b ! (bestj + bestsize)")
    case True
    have "besti + (bestsize + 1) \<le> ahi"
      using True by linarith
    from "1.IH" [OF True "1.prems"(1) this] show ?thesis
      using True by (subst extend_right.simps) simp
  next
    case False
    then show ?thesis
      using "1.prems" by (subst extend_right.simps) auto
  qed
qed

lemma find_longest_match_range:
  assumes flm: "find_longest_match a b alo ahi blo bhi = (i, j, k)" and k: "k \<noteq> 0"
  shows "alo \<le> i \<and> i + k \<le> ahi"
proof -
  obtain n0 i0 j0 k0 where r: "flm_rows a b blo bhi [alo..<ahi] (\<lambda>_. 0, alo, blo, 0) = (n0, i0, j0, k0)"
    by (metis prod_cases4)
  obtain i1 j1 k1 where l: "extend_left a b alo blo i0 j0 k0 = (i1, j1, k1)"
    by (metis prod_cases3)
  have e: "extend_right a b ahi bhi i1 j1 k1 = (i, j, k)"
    using flm r l by (simp add: find_longest_match_def)
  show ?thesis
  proof (cases "alo \<le> ahi")
    case True
    have "\<forall>j. (\<lambda>_. 0::nat) j \<le> (case [alo..<ahi] of [] \<Rightarrow> ahi | i # _ \<Rightarrow> i) - alo"
      by simp
    from flm_rows_inv [where j2len = "\<lambda>_. 0" and alo = alo and ahi = ahi and bi = alo and bs = 0
        and rows = "[alo..<ahi]" and a = a and b = b and blo = blo and bhi = bhi and bj = blo,
        OF _ _ this] True r
    have "alo \<le> i0 \<and> i0 + k0 \<le> ahi" by simp
    with extend_left_inv [of alo i0 k0 ahi a b blo j0] l
    have "alo \<le> i1 \<and> i1 + k1 \<le> ahi" by simp
    with extend_right_inv [of alo i1 k1 ahi a b bhi j1] e
    show ?thesis by simp
  next
    case False
    then have "[alo..<ahi] = []" by simp
    with r have "i0 = alo" "k0 = 0" by simp_all
    with l have "i1 = alo" "k1 = 0" by (simp_all add: extend_left.simps)
    with e False have "k = 0" by (simp add: extend_right.simps)
    with k show ?thesis by simp
  qed
qed

text \<open>
  \<open>get_matching_blocks\<close> works through a queue of index ranges: the longest block of a
  range, then the ranges on its left and on its right. \<open>ratio\<close> only adds up the sizes of
  the blocks, which is what \<open>count_matches\<close> returns for a range.
\<close>

function count_matches :: "string \<Rightarrow> string \<Rightarrow> nat \<Rightarrow> nat \<Rightarrow> nat \<Rightarrow> nat \<Rightarrow> nat" where
  "count_matches a b alo ahi blo bhi =
     (case find_longest_match a b alo ahi blo bhi of
        (i, j, k) \<Rightarrow>
          if k = 0 then 0
          else k + (if alo < i \<and> blo < j then count_matches a b alo i blo j else 0)
                 + (if i + k < ahi \<and> j + k < bhi then count_matches a b (i + k) ahi (j + k) bhi
                    else 0))"
  by pat_completeness auto
termination
proof (relation "measure (\<lambda>(a, b, alo, ahi, blo, bhi). ahi - alo)", goal_cases)
  case 1
  show ?case by simp
next
  case (2 a b alo ahi blo bhi i y j k)
  from 2(1) [symmetric] 2(2) [symmetric]
  have "find_longest_match a b alo ahi blo bhi = (i, j, k)" by simp
  from find_longest_match_range [OF this] 2 show ?case by auto
next
  case (3 a b alo ahi blo bhi i y j k)
  from 3(1) [symmetric] 3(2) [symmetric]
  have "find_longest_match a b alo ahi blo bhi = (i, j, k)" by simp
  from find_longest_match_range [OF this] 3 show ?case by auto
qed

declare count_matches.simps [simp del]

text \<open>\<open>SequenceMatcher(None, a, b).ratio()\<close>\<close>

definition seq_ratio :: "string \<Rightarrow> string \<Rightarrow> real" where
  "seq_ratio a b =
     (let matches = count_matches a b 0 (length a) 0 (length b);
          len = length a + length b
      in if len = 0 then 1 else 2 * real matches / real len)"

section \<open>comparer.py\<close>

text \<open>
  Scores are Python floats; the model computes them in the reals. The similarity measure
  \<open>SequenceMatcher(None, a, b).ratio()\<close> belongs to the standard library and is a parameter
  \<open>ratio\<close> of every function that reaches it.
\<close>

record MatchScore =
  ms_certificate :: ExperienceRecord
  ms_cv_entry :: ExperienceRecord
  score :: real
  ms_start_date_match :: bool

record ComparisonResult =
  certificate :: ExperienceRecord
  cv_entry :: "ExperienceRecord option"
  start_date_match :: bool
  details :: string

text \<open>The table \<open>replacements\<close> of \<open>_normalize_name\<close>, in the order the loop visits it.\<close>

definition replacements :: "(char \<times> char) list" where
  "replacements =
     [(CHR 0xE1, CHR ''a''), (CHR 0xE9, CHR ''e''), (CHR 0xED, CHR ''i''),
      (CHR 0xF3, CHR ''o''), (CHR 0xFA, CHR ''u''), (CHR 0xF1, CHR ''n'')]"

text \<open>\<open>_normalize_name\<close>: a null or empty name gives the empty string.\<close>

definition normalize_name :: "string option \<Rightarrow> string" where
  "normalize_name name =
     (case name of
        None \<Rightarrow> []
      | Some n \<Rightarrow>
          if n = [] then []
          else
            (let cleaned = foldl (\<lambda>cl (src, dest). replace_char src dest cl) (lower n) replacements
             in strip (filter (\<lambda>ch. isalnum ch \<or> isspace ch) cleaned)))"

text \<open>\<open>_employer_similarity\<close>\<close>

definition employer_similarity ::
  "(string \<Rightarrow> string \<Rightarrow> real) \<Rightarrow> string option \<Rightarrow> string option \<Rightarrow> real" where
  "employer_similarity ratio a b =
     (let a_norm = normalize_name a; b_norm = normalize_name b
      in if a_norm = [] \<or> b_norm = [] then 0 else ratio a_norm b_norm)"

text \<open>\<open>_date_difference\<close>\<close>

definition date_difference :: "date option \<Rightarrow> date option \<Rightarrow> int option" where
  "date_difference a b =
     (case a of
        None \<Rightarrow> None
      | Some x \<Rightarrow> (case b of None \<Rightarrow> None | Some y \<Rightarrow> Some \<bar>days_between x y\<bar>))"

text \<open>\<open>start_diff or 60\<close>: the right operand replaces \<open>None\<close> and also the falsy 0.\<close>

definition or_int :: "int option \<Rightarrow> int \<Rightarrow> int" where
  "or_int x dflt = (case x of None \<Rightarrow> dflt | Some n \<Rightarrow> if n = 0 then dflt else n)"

text \<open>\<open>_score_pair\<close>\<close>

definition score_pair ::
  "(string \<Rightarrow> string \<Rightarrow> real) \<Rightarrow> ExperienceRecord \<Rightarrow> ExperienceRecord \<Rightarrow> MatchScore" where
  "score_pair ratio cert cv =
     (let similarity = employer_similarity ratio (employer cert) (employer cv);
          start_diff = date_difference (start_date cert) (start_date cv);
          start_match = (case start_diff of None \<Rightarrow> False | Some d \<Rightarrow> d \<le> 7);
          date_score = (if start_match then 1 else 1 / (1 + real_of_int (or_int start_diff 60) / 30));
          combined_score = 0.7 * similarity + 0.3 * date_score
      in \<lparr>ms_certificate = cert, ms_cv_entry = cv, score = combined_score,
           ms_start_date_match = start_match\<rparr>)"

text \<open>
  The inner loop of \<open>compare_certificates_with_cv\<close> over \<open>enumerate(cv_list)\<close>: the state is
  \<open>best_score\<close> with \<open>best_idx\<close>, \<open>None\<close> before the first entry. Every entry of the list is
  scored; the set of used indices is not consulted.
\<close>

fun best_match ::
  "(string \<Rightarrow> string \<Rightarrow> real) \<Rightarrow> ExperienceRecord \<Rightarrow> (nat \<times> ExperienceRecord) list
     \<Rightarrow> (MatchScore \<times> nat) option \<Rightarrow> (MatchScore \<times> nat) option" where
  "best_match ratio cert [] best = best"
| "best_match ratio cert ((idx, cv) # rest) best =
     (let sc = score_pair ratio cert cv
      in best_match ratio cert rest
           (case best of
              None \<Rightarrow> Some (sc, idx)
            | Some (b, bi) \<Rightarrow> if score b < score sc then Some (sc, idx) else Some (b, bi)))"

definition unmatched_details :: string where
  "unmatched_details = ''No se encontr'' @ [CHR 0xF3] @ '' coincidencia en la hoja de vida''"

text \<open>
  The body of the loop over the certificates. The state is the list \<open>comparisons\<close> and the
  set \<open>used_cv_indices\<close>.
\<close>

definition certificate_step ::
  "(string \<Rightarrow> string \<Rightarrow> real) \<Rightarrow> ExperienceRecord list
     \<Rightarrow> ComparisonResult list \<times> nat set \<Rightarrow> ExperienceRecord
     \<Rightarrow> ComparisonResult list \<times> nat set" where
  "certificate_step ratio cv_list st cert =
     (let unmatched =
            (fst st @ [\<lparr>certificate = cert, cv_entry = None, start_date_match = False,
                        details = unmatched_details\<rparr>], snd st)
      in case best_match ratio cert (enumerate 0 cv_list) None of
           None \<Rightarrow> unmatched
         | Some (best_score, best_idx) \<Rightarrow>
             if 0.3 < score best_score
             then (fst st @ [\<lparr>certificate = cert, cv_entry = Some (cv_list ! best_idx),
                       start_date_match = ms_start_date_match best_score,
                       details = (if ms_start_date_match best_score
                                  then ''Coincidencia por empleador y fecha''
                                  else ''Coincidencia parcial'')\<rparr>],
                   insert best_idx (snd st))
             else unmatched)"

definition match_certificates ::
  "(string \<Rightarrow> string \<Rightarrow> real) \<Rightarrow> ExperienceRecord list \<Rightarrow> ExperienceRecord list
     \<Rightarrow> ComparisonResult list \<times> nat set" where
  "match_certificates ratio certificates cv_list =
     foldl (certificate_step ratio cv_list) ([], {}) certificates"

text \<open>The final value of \<open>used_cv_indices\<close>.\<close>

definition used_cv_indices ::
  "(string \<Rightarrow> string \<Rightarrow> real) \<Rightarrow> ExperienceRecord list \<Rightarrow> ExperienceRecord list \<Rightarrow> nat set" where
  "used_cv_indices ratio certificates cv_list = snd (match_certificates ratio certificates cv_list)"

text \<open>The informational row of a r\'esum\'e entry; \<open>issue_date\<close> takes its default \<open>None\<close>.\<close>

definition cv_only_row :: "ExperienceRecord \<Rightarrow> ComparisonResult" where
  "cv_only_row cv =
     \<lparr>certificate = new_ExperienceRecord ''Hoja de vida'' (employer cv) (start_date cv)
                       (end_date cv) None,
      cv_entry = Some cv, start_date_match = True,
      details = ''Registro presente solo en la hoja de vida''\<rparr>"

text \<open>\<open>compare_certificates_with_cv\<close>\<close>

definition compare_certificates_with_cv ::
  "(string \<Rightarrow> string \<Rightarrow> real) \<Rightarrow> ExperienceRecord list \<Rightarrow> ExperienceRecord list
     \<Rightarrow> ComparisonResult list" where
  "compare_certificates_with_cv ratio certificates cv_entries =
     (let cv_list = cv_entries;
          st = match_certificates ratio certificates cv_list
      in fst st @ map (\<lambda>(idx, cv). cv_only_row cv)
                    (filter (\<lambda>(idx, cv). idx \<notin> snd st) (enumerate 0 cv_list)))"

text \<open>
  The wording of the reconciler's score, to compare with \<open>score_pair\<close>: the similarity of
  the normalized names, 0 when either is empty; the closeness of the start dates, with
  60 days standing for a missing date.
\<close>

definition spec_name_similarity ::
  "(string \<Rightarrow> string \<Rightarrow> real) \<Rightarrow> string option \<Rightarrow> string option \<Rightarrow> real" where
  "spec_name_similarity ratio a b =
     (if normalize_name a = [] \<or> normalize_name b = [] then 0
      else ratio (normalize_name a) (normalize_name b))"

definition spec_date_closeness :: "date option \<Rightarrow> date option \<Rightarrow> real" where
  "spec_date_closeness a b =
     (case (a, b) of
        (Some x, Some y) \<Rightarrow>
          if \<bar>days_between x y\<bar> \<le> 7 then 1
          else 1 / (1 + real_of_int \<bar>days_between x y\<bar> / 30)
      | _ \<Rightarrow> 1 / (1 + 60 / 30))"

text \<open>
  What one certificate contributes, read off the loop body: its own row and the index it
  consumes, if any. Neither depends on the certificates processed before it.
\<close>

definition matched_index ::
  "(string \<Rightarrow> string \<Rightarrow> real) \<Rightarrow> ExperienceRecord list \<Rightarrow> ExperienceRecord \<Rightarrow> nat option" where
  "matched_index ratio cv_list cert =
     (case best_match ratio cert (enumerate 0 cv_list) None of
        None \<Rightarrow> None
      | Some (best_score, best_idx) \<Rightarrow> if 0.3 < score best_score then Some best_idx else None)"

definition certificate_row ::
  "(string \<Rightarrow> string \<Rightarrow> real) \<Rightarrow> ExperienceRecord list \<Rightarrow> ExperienceRecord \<Rightarrow> ComparisonResult" where
  "certificate_row ratio cv_list cert =
     (case matched_index ratio cv_list cert of
        None \<Rightarrow>
          \<lparr>certificate = cert, cv_entry = None, start_date_match = False,
           details = unmatched_details\<rparr>
      | Some i \<Rightarrow>
          (let m = ms_start_date_match (score_pair ratio cert (cv_list ! i))
           in \<lparr>certificate = cert, cv_entry = Some (cv_list ! i), start_date_match = m,
                details = (if m then ''Coincidencia por empleador y fecha''
                           else ''Coincidencia parcial'')\<rparr>))"

section \<open>Regular expressions (the module re)\<close>

text \<open>
  The patterns of \<open>text_parser.py\<close> are built from three things: a class of characters
  repeated greedily between a least and a greatest number of times, concatenation, and
  alternation. \<open>Rep P lo hi\<close> is the first (\<open>hi = None\<close> for no upper bound), a list of
  \<open>rx\<close> is the second and \<open>Alt\<close> of a list of such lists is the third. The engine of
  \<open>re\<close> backtracks: it tries the longest repetition first and the alternatives from left to
  right, and takes the first way that lets the rest of the pattern match. The functions
  below list all the ways to match in that order, each with the matched text and the
  text left over, so that the head of the list is the match \<open>re.match\<close> returns.
\<close>

datatype rx = Rep "char \<Rightarrow> bool" nat "nat option" | Alt "rx list list"

definition rep_matches ::
  "(char \<Rightarrow> bool) \<Rightarrow> nat \<Rightarrow> nat option \<Rightarrow> string \<Rightarrow> (string \<times> string) list" where
  "rep_matches P lo hi s =
     (let run = length (takeWhile P s);
          top = (case hi of None \<Rightarrow> run | Some n \<Rightarrow> min n run)
      in map (\<lambda>n. (take n s, drop n s)) (rev [lo..<top + 1]))"

fun rx_match :: "rx \<Rightarrow> string \<Rightarrow> (string \<times> string) list"
  and seq_match :: "rx list \<Rightarrow> string \<Rightarrow> (string list \<times> string) list"
  and alt_match :: "rx list list \<Rightarrow> string \<Rightarrow> (string \<times> string) list" where
  "rx_match (Rep P lo hi) s = rep_matches P lo hi s"
| "rx_match (Alt alts) s = alt_match alts s"
| "seq_match [] s = [([], s)]"
| "seq_match (r # rs) s =
     concat (map (\<lambda>(m, rest). map (\<lambda>(ms, rest'). (m # ms, rest')) (seq_match rs rest))
                 (rx_match r s))"
| "alt_match [] s = []"
| "alt_match (a # alts) s =
     map (\<lambda>(ms, rest). (concat ms, rest)) (seq_match a s) @ alt_match alts s"

text \<open>\<open>pattern.match(s)\<close>: the texts matched by the elements of the pattern, and the rest\<close>

definition re_match :: "rx list \<Rightarrow> string \<Rightarrow> (string list \<times> string) option" where
  "re_match p s = (case seq_match p s of [] \<Rightarrow> None | m # _ \<Rightarrow> Some m)"

text \<open>
  \<open>pattern.finditer(s)\<close>: the matches from left to right, none overlapping another, each
  with its start, its end and its text. The search resumes where a match ended, and one
  character further where there was none.
\<close>

function finditer :: "rx list \<Rightarrow> nat \<Rightarrow> string \<Rightarrow> (nat \<times> nat \<times> string) list" where
  "finditer p pos s =
     (if s = [] then []
      else case re_match p s of
             None \<Rightarrow> finditer p (pos + 1) (tl s)
           | Some (ms, rest) \<Rightarrow>
               (let m = concat ms; n = max 1 (length m)
                in (pos, pos + length m, m) # finditer p (pos + n) (drop n s)))"
  by pat_completeness auto
termination
  by (relation "measure (\<lambda>(p, pos, s). length s)") (auto simp: Let_def)

declare finditer.simps [simp del]

text \<open>
  The pieces of the patterns. Every pattern is compiled with \<open>IGNORECASE\<close>: a literal
  character matches in either case. \<open>\d\<close> is a digit and \<open>\s\<close> is white space;
  \<open>letters\<close> is \<open>[a-zA-Z\'a\'e\'i\'o\'u\~n]+\<close>.
\<close>

definition is_digit :: "char \<Rightarrow> bool" where
  "is_digit c = in_range c 0x30 0x39"

definition ci :: "char \<Rightarrow> rx" where
  "ci x = Rep (\<lambda>c. lower_char c = x) 1 (Some 1)"

definition one_of :: "string \<Rightarrow> rx" where
  "one_of xs = Rep (\<lambda>c. lower_char c \<in> set xs) 1 (Some 1)"

definition word :: "string \<Rightarrow> rx" where
  "word w = Alt [map ci w]"

definition digits :: "nat \<Rightarrow> nat \<Rightarrow> rx" where
  "digits lo hi = Rep is_digit lo (Some hi)"

definition spaces :: "nat \<Rightarrow> rx" where
  "spaces lo = Rep isspace lo None"

definition letters :: rx where
  "letters = Rep (\<lambda>c. in_range (lower_char c) 0x61 0x7A
      \<or> lower_char c \<in> {CHR 0xE1, CHR 0xE9, CHR 0xED, CHR 0xF3, CHR 0xFA, CHR 0xF1}) 1 None"

definition sep :: rx where
  "sep = one_of ''/-''"

text \<open>\<open>(?:de\s+|d[i\'i]as\s+del\s+mes\s+de\s+)\<close>\<close>

definition spanish_prefix :: rx where
  "spanish_prefix =
     Alt [[word ''de'', spaces 1],
          [ci CHR ''d'', one_of [CHR ''i'', CHR 0xED], ci CHR ''a'', ci CHR ''s'', spaces 1,
           word ''del'', spaces 1, word ''mes'', spaces 1, word ''de'', spaces 1]]"

text \<open>\<open>DATE_PATTERN\<close>: its four alternatives, in their order\<close>

definition DATE_PATTERN :: "rx list" where
  "DATE_PATTERN =
     [Alt [[digits 1 2, sep, digits 1 2, sep, digits 2 4],
           [digits 4 4, ci CHR ''-'', digits 2 2, ci CHR ''-'', digits 2 2],
           [digits 1 2, spaces 1, spanish_prefix, letters, spaces 1, word ''de'', spaces 1,
            digits 4 4],
           [letters, spaces 1, digits 1 2, ci CHR '','', spaces 0, digits 4 4]]]"

section \<open>text_parser.py: dates\<close>

definition MONTHS :: "(string \<times> int) list" where
  "MONTHS =
     [(''enero'', 1), (''febrero'', 2), (''marzo'', 3), (''abril'', 4), (''mayo'', 5),
      (''junio'', 6), (''julio'', 7), (''agosto'', 8), (''septiembre'', 9), (''setiembre'', 9),
      (''octubre'', 10), (''noviembre'', 11), (''diciembre'', 12)]"

definition KEYWORDS_start :: "string list" where
  "KEYWORDS_start =
     [''ingreso'', ''inicio'', ''desde'', ''vinculaci'' @ [CHR 0xF3] @ ''n'', ''vinculo'',
      ''se vincul'' @ [CHR 0xF3]]"

definition KEYWORDS_end :: "string list" where
  "KEYWORDS_end =
     [''retiro'', ''terminaci'' @ [CHR 0xF3] @ ''n'', ''hasta'', ''culminaci'' @ [CHR 0xF3] @ ''n'',
      ''finalizaci'' @ [CHR 0xF3] @ ''n'', ''finalizo'', ''finaliz'' @ [CHR 0xF3]]"

definition KEYWORDS_issue :: "string list" where
  "KEYWORDS_issue =
     [''expedido'', ''expide'', ''emitido'', ''fecha de expedici'' @ [CHR 0xF3] @ ''n'']"

definition EMPLOYER_HINTS :: "string list" where
  "EMPLOYER_HINTS =
     [''empresa'', ''entidad'', ''compa'' @ [CHR 0xF1, CHR 0xED] @ ''a'', ''compania'',
      ''organizaci'' @ [CHR 0xF3] @ ''n'', ''organizacion'', ''instituci'' @ [CHR 0xF3] @ ''n'',
      ''institucion'', ''raz'' @ [CHR 0xF3] @ ''n social'', ''razon social'', ''dependencia'']"

text \<open>\<open>int(s)\<close> on a string of digits, which may have white space around it\<close>

definition digit_value :: "char \<Rightarrow> nat" where
  "digit_value c = of_char c - 48"

definition py_int :: "string \<Rightarrow> int" where
  "py_int s = int (foldl (\<lambda>n c. 10 * n + digit_value c) 0 (strip s))"

text \<open>
  \<open>datetime.strptime\<close> for the directives that \<open>_parse_numeric_date\<close> uses. The library
  turns the format into a regular expression (\<open>%d\<close> is
  \<open>3[0-1]|[1-2]\d|0[1-9]|[1-9]| [1-9]\<close>, \<open>%m\<close> is \<open>1[0-2]|0[1-9]|[1-9]\<close>, \<open>%Y\<close> is four digits,
  \<open>%y\<close> is two), matches it at the start of the string and raises \<open>ValueError\<close> when it
  does not match or when text remains after the match. A two-digit year from \<open>%y\<close> is in
  the 2000s up to 68 and in the 1900s from 69, as POSIX has it. The date must exist.
\<close>

datatype directive = Pd | Pm | PY | Py | Lit char

definition nonzero_digit :: rx where
  "nonzero_digit = one_of ''123456789''"

fun directive_rx :: "directive \<Rightarrow> rx" where
  "directive_rx Pd =
     Alt [[ci CHR ''3'', one_of ''01''], [one_of ''12'', digits 1 1], [ci CHR ''0'', nonzero_digit],
          [nonzero_digit], [ci CHR '' '', nonzero_digit]]"
| "directive_rx Pm = Alt [[ci CHR ''1'', one_of ''012''], [ci CHR ''0'', nonzero_digit], [nonzero_digit]]"
| "directive_rx PY = digits 4 4"
| "directive_rx Py = digits 2 2"
| "directive_rx (Lit c) = ci c"

fun set_field :: "int \<times> int \<times> int \<Rightarrow> directive \<times> string \<Rightarrow> int \<times> int \<times> int" where
  "set_field (y, m, d) (Pd, v) = (y, m, py_int v)"
| "set_field (y, m, d) (Pm, v) = (y, py_int v, d)"
| "set_field (y, m, d) (PY, v) = (py_int v, m, d)"
| "set_field (y, m, d) (Py, v) = (if py_int v \<le> 68 then py_int v + 2000 else py_int v + 1900, m, d)"
| "set_field (y, m, d) (Lit c, v) = (y, m, d)"

definition strptime :: "string \<Rightarrow> directive list \<Rightarrow> error + date" where
  "strptime data_string fmt =
     (case re_match (map directive_rx fmt) data_string of
        None \<Rightarrow> Inl ValueError
      | Some (found, rest) \<Rightarrow>
          if rest \<noteq> [] then Inl ValueError
          else (case foldl set_field (1900, 1, 1) (zip fmt found) of
                  (y, m, d) \<Rightarrow> mk_date y m d))"

text \<open>
  \<open>_parse_numeric_date\<close>: the formats in their order. Each \<open>ValueError\<close>, from
  \<open>strptime\<close> or from \<open>date(...)\<close>, goes on to the next format.
\<close>

definition numeric_formats :: "directive list list" where
  "numeric_formats =
     [[Pd, Lit CHR ''/'', Pm, Lit CHR ''/'', PY], [Pd, Lit CHR ''-'', Pm, Lit CHR ''-'', PY],
      [Pd, Lit CHR ''/'', Pm, Lit CHR ''/'', Py], [Pd, Lit CHR ''-'', Pm, Lit CHR ''-'', Py],
      [PY, Lit CHR ''-'', Pm, Lit CHR ''-'', Pd]]"

fun try_formats :: "string \<Rightarrow> directive list list \<Rightarrow> date option" where
  "try_formats text [] = None"
| "try_formats text (fmt # fmts) =
     (case strptime text fmt of
        Inl _ \<Rightarrow> try_formats text fmts
      | Inr dt \<Rightarrow>
          (let y = (if year dt < 100 then year dt + (if year dt < 50 then 2000 else 1900)
                    else year dt)
           in case mk_date y (month dt) (day dt) of
                Inl _ \<Rightarrow> try_formats text fmts
              | Inr d \<Rightarrow> Some d))"

definition parse_numeric_date :: "string \<Rightarrow> date option" where
  "parse_numeric_date text = try_formats text numeric_formats"

text \<open>
  \<open>_parse_spanish_date\<close>: two patterns, matched at the start of the text. The groups are
  taken by position: day, month and year are elements 0, 3 and 7 of the first pattern and
  2, 0 and 5 of the second. \<open>date(...)\<close> is called outside any \<open>try\<close>, so its
  \<open>ValueError\<close> is the result.
\<close>

definition spanish_day_first :: "rx list" where
  "spanish_day_first =
     [digits 1 2, spaces 1, spanish_prefix, letters, spaces 1, word ''de'', spaces 1, digits 4 4]"

definition spanish_month_first :: "rx list" where
  "spanish_month_first = [letters, spaces 1, digits 1 2, ci CHR '','', spaces 0, digits 4 4]"

definition parse_spanish_date :: "string \<Rightarrow> error + date option" where
  "parse_spanish_date text =
     (let second =
            (case re_match spanish_month_first text of
               None \<Rightarrow> Inr None
             | Some (g, _) \<Rightarrow>
                 (case map_of MONTHS (lower (g ! 0)) of
                    None \<Rightarrow> Inr None
                  | Some m \<Rightarrow> map_sum id Some (mk_date (py_int (g ! 5)) m (py_int (g ! 2)))))
      in case re_match spanish_day_first text of
           None \<Rightarrow> second
         | Some (g, _) \<Rightarrow>
             (case map_of MONTHS (lower (g ! 3)) of
                None \<Rightarrow> second
              | Some m \<Rightarrow> map_sum id Some (mk_date (py_int (g ! 7)) m (py_int (g ! 0)))))"

text \<open>
  \<open>_parse_date\<close>: \<open>_parse_numeric_date(cleaned) or _parse_spanish_date(cleaned)\<close>; a date
  is truthy, so the right operand is evaluated when the left one is \<open>None\<close>.
\<close>

definition parse_date :: "string \<Rightarrow> error + date option" where
  "parse_date text =
     (let cleaned = strip text
      in case parse_numeric_date cleaned of
           Some d \<Rightarrow> Inr (Some d)
         | None \<Rightarrow> parse_spanish_date cleaned)"

section \<open>text_parser.py: sections and fields\<close>

text \<open>
  \<open>str.splitlines()\<close>: a line ends at a line break character, \<open>\r\n\<close> counting as one,
  and no empty line follows the last break.
\<close>

definition is_linebreak :: "char \<Rightarrow> bool" where
  "is_linebreak c = (in_range c 0x0A 0x0D \<or> in_range c 0x1C 0x1E \<or> c = CHR 0x85)"

fun splitlines_from :: "string \<Rightarrow> string \<Rightarrow> string list" where
  "splitlines_from cur [] = (if cur = [] then [] else [cur])"
| "splitlines_from cur [c] =
     (if is_linebreak c then [cur] else [cur @ [c]])"
| "splitlines_from cur (c # l # s) =
     (if c = CHR 0x0D \<and> l = CHR 0x0A then cur # splitlines_from [] s
      else if is_linebreak c then cur # splitlines_from [] (l # s)
      else splitlines_from (cur @ [c]) (l # s))"

definition splitlines :: "string \<Rightarrow> string list" where
  "splitlines text = splitlines_from [] text"

text \<open>\<open>split_into_sections\<close>: the loop over the stripped lines, with its buffer\<close>

fun sections_loop :: "string list \<Rightarrow> string list \<Rightarrow> string list list" where
  "sections_loop [] buffer = (if buffer = [] then [] else [buffer])"
| "sections_loop (line # lines) buffer =
     (if line = []
      then (if buffer \<noteq> [] then buffer # sections_loop lines [] else sections_loop lines [])
      else sections_loop lines (buffer @ [line]))"

definition split_into_sections :: "string \<Rightarrow> string list list" where
  "split_into_sections text = sections_loop (map strip (splitlines text)) []"

text \<open>\<open>ParsedSection.text\<close>: the lines joined by \<open>\n\<close>\<close>

fun join_lines :: "string list \<Rightarrow> string" where
  "join_lines [] = []"
| "join_lines [l] = l"
| "join_lines (l # ls) = l @ [CHR 0x0A] @ join_lines ls"

text \<open>\<open>kw in s\<close>\<close>

fun contains :: "string \<Rightarrow> string \<Rightarrow> bool" where
  "contains [] kw = (kw = [])"
| "contains (c # s) kw = (take (length kw) (c # s) = kw \<or> contains s kw)"

text \<open>
  \<open>_find_first_matching_date\<close>: the loop over the matches, then the function. The windows
  are the 80 characters before and after the span in the lower-cased text.
\<close>

datatype position = Before | After | Any

fun first_matching ::
  "string \<Rightarrow> string list \<Rightarrow> position \<Rightarrow> (nat \<times> nat \<times> string) list \<Rightarrow> error + date option" where
  "first_matching lowered keywords pos [] = Inr None"
| "first_matching lowered keywords pos ((span_start, span_end, m) # matches) =
     (let text_before = drop (span_start - 80) (take span_start lowered);
          text_after = take 80 (drop span_end lowered);
          before_match =
            (pos \<in> {Before, Any} \<and> (\<exists>kw \<in> set keywords. contains text_before kw));
          after_match =
            (pos \<in> {After, Any} \<and> (\<exists>kw \<in> set keywords. contains text_after kw))
      in if before_match \<or> after_match
         then (case parse_date m of
                 Inl e \<Rightarrow> Inl e
               | Inr (Some d) \<Rightarrow> Inr (Some d)
               | Inr None \<Rightarrow> first_matching lowered keywords pos matches)
         else first_matching lowered keywords pos matches)"

definition find_first_matching_date ::
  "string \<Rightarrow> string list \<Rightarrow> position \<Rightarrow> error + date option" where
  "find_first_matching_date section_text keywords pos =
     first_matching (lower section_text) keywords pos (finditer DATE_PATTERN 0 section_text)"

text \<open>\<open>_extract_issue_date\<close>: the last span of the section\<close>

definition extract_issue_date :: "string list \<Rightarrow> error + date option" where
  "extract_issue_date lines =
     (case finditer DATE_PATTERN 0 (join_lines lines) of
        [] \<Rightarrow> Inr None
      | c # cs \<Rightarrow> (case last (c # cs) of (_, _, m) \<Rightarrow> parse_date m))"

text \<open>
  \<open>_extract_employer\<close>. The pattern of the \<open>re.sub\<close> call, the deletion of all its
  matches, \<open>str.strip(" -:")\<close>, \<open>max(..., key=len)\<close>, which keeps the first of the longest
  lines, and the two parts of the function.
\<close>

definition hint_pattern :: "rx list" where
  "hint_pattern =
     [Alt [[word ''empresa''], [word ''entidad''],
           [word ''compa'', one_of [CHR 0xF1, CHR ''n''], ci (CHR 0xED), ci CHR ''a''],
           [word (''organizaci'' @ [CHR 0xF3] @ ''n'')], [word ''organizacion''],
           [word ''instituci'', one_of [CHR 0xF3, CHR ''o''], ci CHR ''n''],
           [word ''raz'', one_of [CHR 0xF3, CHR ''o''], word ''n social''],
           [word ''dependencia''], [ci CHR '':'']]]"

function delete_matches :: "rx list \<Rightarrow> string \<Rightarrow> string" where
  "delete_matches p s =
     (if s = [] then []
      else case re_match p s of
             None \<Rightarrow> hd s # delete_matches p (tl s)
           | Some (ms, rest) \<Rightarrow>
               if concat ms = [] then hd s # delete_matches p (tl s)
               else delete_matches p (drop (length (concat ms)) s))"
  by pat_completeness auto
termination
  by (relation "measure (\<lambda>(p, s). length s)") auto

declare delete_matches.simps [simp del]

definition strip_chars :: "string \<Rightarrow> string \<Rightarrow> string" where
  "strip_chars cs s = rev (dropWhile (\<lambda>c. c \<in> set cs) (rev (dropWhile (\<lambda>c. c \<in> set cs) s)))"

fun longest :: "string \<Rightarrow> string list \<Rightarrow> string" where
  "longest best [] = best"
| "longest best (l # ls) = longest (if length best < length l then l else best) ls"

fun hinted_employer :: "string list \<Rightarrow> string option" where
  "hinted_employer [] = None"
| "hinted_employer (line # lines) =
     (if \<exists>hint \<in> set EMPLOYER_HINTS. contains (lower line) hint
      then (let cleaned = strip_chars '' -:'' (delete_matches hint_pattern line)
            in if cleaned \<noteq> [] then Some cleaned else hinted_employer lines)
      else hinted_employer lines)"

definition extract_employer :: "string list \<Rightarrow> string option" where
  "extract_employer lines =
     (case hinted_employer lines of
        Some e \<Rightarrow> Some e
      | None \<Rightarrow>
          (case filter (\<lambda>line. strip line \<noteq> []) lines of
             [] \<Rightarrow> None
           | l # ls \<Rightarrow> (let candidate = longest l ls
                        in if candidate \<noteq> [] then Some (strip candidate) else None)))"

text \<open>
  \<open>parse_experiences_from_text\<close>: the loop over the sections, then the function. An
  exception raised while a section is read ends the call.
\<close>

fun parse_sections ::
  "string \<Rightarrow> string list list \<Rightarrow> ExperienceRecord list \<Rightarrow> error + ExperienceRecord list" where
  "parse_sections src [] experiences = Inr experiences"
| "parse_sections src (lines # sections) experiences =
     (let section_text = join_lines lines
      in case find_first_matching_date section_text KEYWORDS_start Before of
           Inl e \<Rightarrow> Inl e
         | Inr start_d \<Rightarrow>
        (case find_first_matching_date section_text KEYWORDS_end Before of
           Inl e \<Rightarrow> Inl e
         | Inr end_d \<Rightarrow>
        (case find_first_matching_date section_text KEYWORDS_issue Before of
           Inl e \<Rightarrow> Inl e
         | Inr issue_kw \<Rightarrow>
        (case (case issue_kw of None \<Rightarrow> extract_issue_date lines | Some d \<Rightarrow> Inr (Some d)) of
           Inl e \<Rightarrow> Inl e
         | Inr issue_d \<Rightarrow>
             if start_d = None \<and> end_d = None \<and> issue_d = None
             then parse_sections src sections experiences
             else parse_sections src sections
                    (experiences @ [new_ExperienceRecord src (extract_employer lines)
                                      start_d end_d issue_d])))))"

definition parse_experiences_from_text :: "string \<Rightarrow> string \<Rightarrow> error + ExperienceRecord list" where
  "parse_experiences_from_text text src =
     (let sections = split_into_sections text;
          sections = (if sections = [] then [[text]] else sections)
      in parse_sections src sections [])"



section \<open>text_parser.py: merging\<close>

text \<open>
  \<open>merge_overlapping_records\<close> assigns to attributes of the records it is given, so the
  records are modelled as objects in a store: a reference is an address, the heap maps
  addresses to record values, and the function takes the heap with the list of
  references and returns the list it builds with the heap it leaves.
\<close>

type_synonym ref = nat

type_synonym heap = "ref \<Rightarrow> ExperienceRecord"

text \<open>The grouping key: \<open>(record.employer or "").strip().lower()\<close>\<close>

definition merge_key :: "ExperienceRecord \<Rightarrow> string" where
  "merge_key rec = lower (strip (case employer rec of None \<Rightarrow> [] | Some e \<Rightarrow> e))"

text \<open>
  \<open>grouped.setdefault(key, []).append(record)\<close> on a dictionary, which keeps its keys in
  the order of their first insertion.
\<close>

fun add_to_group :: "string \<Rightarrow> ref \<Rightarrow> (string \<times> ref list) list \<Rightarrow> (string \<times> ref list) list" where
  "add_to_group k r [] = [(k, [r])]"
| "add_to_group k r ((k', rs) # g) =
     (if k = k' then (k', rs @ [r]) # g else (k', rs) # add_to_group k r g)"

definition group_records :: "heap \<Rightarrow> ref list \<Rightarrow> (string \<times> ref list) list" where
  "group_records h records = foldl (\<lambda>g r. add_to_group (merge_key (h r)) r g) [] records"

text \<open>
  \<open>sorted(items, key=lambda rec: rec.start_date or date.min)\<close>: a stable sort, here by
  insertion from the right, each element going before the first one whose key is not
  smaller.
\<close>

definition start_key :: "heap \<Rightarrow> ref \<Rightarrow> date" where
  "start_key h r = (case start_date (h r) of None \<Rightarrow> date_min | Some d \<Rightarrow> d)"

fun insort_by :: "(ref \<Rightarrow> date) \<Rightarrow> ref \<Rightarrow> ref list \<Rightarrow> ref list" where
  "insort_by f x [] = [x]"
| "insort_by f x (y # ys) = (if date_lt (f y) (f x) then y # insort_by f x ys else x # y # ys)"

definition sorted_by :: "(ref \<Rightarrow> date) \<Rightarrow> ref list \<Rightarrow> ref list" where
  "sorted_by f xs = foldr (insort_by f) xs []"

text \<open>
  The condition under which the running record absorbs the next one. A date is always
  truthy, so each operand of the \<open>and\<close> chain tests for \<open>None\<close>.
\<close>

definition overlaps :: "ExperienceRecord \<Rightarrow> ExperienceRecord \<Rightarrow> bool" where
  "overlaps current next_item =
     (case start_date current of
        None \<Rightarrow> False
      | Some _ \<Rightarrow>
          (case start_date next_item of
             None \<Rightarrow> False
           | Some ns \<Rightarrow>
               (case effective_end_date current of
                  None \<Rightarrow> False
                | Some ce \<Rightarrow> date_le ns ce)))"

text \<open>The inner condition: the next record reaches later than the running one.\<close>

definition reaches_later :: "ExperienceRecord \<Rightarrow> ExperienceRecord \<Rightarrow> bool" where
  "reaches_later current next_item =
     (case effective_end_date next_item of
        None \<Rightarrow> False
      | Some ne \<Rightarrow>
          (case effective_end_date current of None \<Rightarrow> True | Some ce \<Rightarrow> date_lt ce ne))"

text \<open>\<open>a or b\<close> on optional dates\<close>

definition or_date :: "date option \<Rightarrow> date option \<Rightarrow> date option" where
  "or_date a b = (case a of None \<Rightarrow> b | Some d \<Rightarrow> Some d)"

text \<open>
  The three statements of the absorption, each a write to the object \<open>current\<close>:
  \<open>current.end_date = next_item.end_date or current.end_date\<close>,
  \<open>current.issue_date = next_item.issue_date or current.issue_date\<close>,
  \<open>current.__post_init__()\<close>.
\<close>

definition absorb :: "heap \<Rightarrow> ref \<Rightarrow> ref \<Rightarrow> heap" where
  "absorb h current next_item =
     (let h1 = h(current := (h current)\<lparr>end_date :=
                  or_date (end_date (h next_item)) (end_date (h current))\<rparr>);
          h2 = h1(current := (h1 current)\<lparr>issue_date :=
                  or_date (issue_date (h1 next_item)) (issue_date (h1 current))\<rparr>)
      in h2(current := post_init (h2 current)))"

text \<open>
  The loop over \<open>items[1:]\<close> with the running record \<open>current\<close> and the output list
  \<open>merged\<close>, and the \<open>merged.append(current)\<close> after it.
\<close>

fun merge_run :: "heap \<Rightarrow> ref \<Rightarrow> ref list \<Rightarrow> ref list \<Rightarrow> ref list \<times> heap" where
  "merge_run h current [] merged = (merged @ [current], h)"
| "merge_run h current (next_item # items) merged =
     (if overlaps (h current) (h next_item)
      then (if reaches_later (h current) (h next_item)
            then merge_run (absorb h current next_item) current items merged
            else merge_run h current items merged)
      else merge_run h next_item items (merged @ [current]))"

text \<open>The loop over \<open>grouped.values()\<close>.\<close>

fun merge_groups :: "heap \<Rightarrow> (string \<times> ref list) list \<Rightarrow> ref list \<Rightarrow> ref list \<times> heap" where
  "merge_groups h [] merged = (merged, h)"
| "merge_groups h ((k, items) # groups) merged =
     (case sorted_by (start_key h) items of
        [] \<Rightarrow> merge_groups h groups merged
      | current # rest \<Rightarrow>
          (case merge_run h current rest merged of
             (merged', h') \<Rightarrow> merge_groups h' groups merged'))"

text \<open>\<open>merge_overlapping_records\<close>\<close>

definition merge_overlapping_records :: "heap \<Rightarrow> ref list \<Rightarrow> ref list \<times> heap" where
  "merge_overlapping_records h records = merge_groups h (group_records h records) []"

text \<open>The references held in a dictionary of groups.\<close>

definition group_refs :: "(string \<times> ref list) list \<Rightarrow> ref set" where
  "group_refs groups = (\<Union>(k, items) \<in> set groups. set items)"

section \<open>Example records\<close>

text \<open>Concrete dates and records on which the functions are evaluated below.\<close>

definition d_2020_01_01 :: date where "d_2020_01_01 = \<lparr>year = 2020, month = 1, day = 1\<rparr>"

definition d_2020_03_01 :: date where "d_2020_03_01 = \<lparr>year = 2020, month = 3, day = 1\<rparr>"

definition d_2020_06_30 :: date where "d_2020_06_30 = \<lparr>year = 2020, month = 6, day = 30\<rparr>"

definition d_2020_12_31 :: date where "d_2020_12_31 = \<lparr>year = 2020, month = 12, day = 31\<rparr>"

definition cert_a :: ExperienceRecord where
  "cert_a = new_ExperienceRecord ''Certificado: 1.pdf'' (Some ''ABC'')
     (Some d_2020_01_01) (Some d_2020_12_31) (Some d_2020_12_31)"

definition cert_b :: ExperienceRecord where
  "cert_b = new_ExperienceRecord ''Certificado: 2.pdf'' (Some ''Abc'')
     (Some d_2020_03_01) (Some d_2020_12_31) (Some d_2020_12_31)"

definition cert_none :: ExperienceRecord where
  "cert_none = new_ExperienceRecord ''Certificado: 3.pdf'' None
     (Some d_2020_01_01) None (Some d_2020_12_31)"

definition cv_a :: ExperienceRecord where
  "cv_a = new_ExperienceRecord ''Hoja de vida: hv.pdf'' (Some ''abc'')
     (Some d_2020_01_01) (Some d_2020_12_31) (Some d_2020_12_31)"

definition cv_x :: ExperienceRecord where
  "cv_x = new_ExperienceRecord ''Hoja de vida: hv.pdf'' (Some ''XYZ'')
     (Some d_2020_01_01) (Some d_2020_12_31) (Some d_2020_06_30)"

definition d_2020_01_05 :: date where
  "d_2020_01_05 = \<lparr>year = 2020, month = 1, day = 5\<rparr>"

definition d_2020_01_10 :: date where
  "d_2020_01_10 = \<lparr>year = 2020, month = 1, day = 10\<rparr>"

definition d_2020_01_20 :: date where
  "d_2020_01_20 = \<lparr>year = 2020, month = 1, day = 20\<rparr>"

text \<open>
  Two certificates of one employer: a stay of ten days, certified on 20 January, and a
  certificate issued on 31 December for a stay that began on 5 January and names no end.
\<close>

definition short_stay :: ExperienceRecord where
  "short_stay = new_ExperienceRecord ''Certificado: 1.pdf'' (Some ''XYZ S.A.'')
     (Some d_2020_01_01) (Some d_2020_01_10) (Some d_2020_01_20)"

definition open_stay :: ExperienceRecord where
  "open_stay = new_ExperienceRecord ''Certificado: 2.pdf'' (Some ''XYZ S.A.'')
     (Some d_2020_01_05) None (Some d_2020_12_31)"

definition heap_xyz :: heap where
  "heap_xyz = (\<lambda>_. short_stay)(1 := open_stay)"

text \<open>
  Two certificates whose employer names differ in case and surrounding blanks, and two
  whose names differ in accents and punctuation only: the second pair is
  \<open>Compa\~n\'ia S.A.\<close> and \<open>compania sa\<close>.
\<close>

definition acme_first :: ExperienceRecord where
  "acme_first = new_ExperienceRecord ''Certificado: 1.pdf'' (Some '' ACME '')
     (Some d_2020_01_01) (Some d_2020_06_30) (Some d_2020_06_30)"

definition acme_second :: ExperienceRecord where
  "acme_second = new_ExperienceRecord ''Certificado: 2.pdf'' (Some ''Acme'')
     (Some d_2020_03_01) (Some d_2020_12_31) (Some d_2020_12_31)"

definition heap_acme :: heap where
  "heap_acme = (\<lambda>_. acme_first)(1 := acme_second)"

definition accented_name :: string where
  "accented_name = ''Compa'' @ [CHR 0xF1, CHR 0xED] @ ''a S.A.''"

definition accented :: ExperienceRecord where
  "accented = new_ExperienceRecord ''Certificado: 1.pdf'' (Some accented_name)
     (Some d_2020_01_01) (Some d_2020_06_30) (Some d_2020_06_30)"

definition unaccented :: ExperienceRecord where
  "unaccented = new_ExperienceRecord ''Certificado: 2.pdf'' (Some ''compania sa'')
     (Some d_2020_03_01) (Some d_2020_12_31) (Some d_2020_12_31)"

definition heap_names :: heap where
  "heap_names = (\<lambda>_. accented)(1 := unaccented)"

text \<open>A date span that names a day the calendar does not have.\<close>

definition feb31 :: string where
  "feb31 = ''31 de febrero de 2020''"

text \<open>
  The wording of the data model, to compare with the code: a date is the earliest of a set
  when it belongs to the set and no member of the set comes before it.
\<close>

definition is_earliest :: "date \<Rightarrow> date set \<Rightarrow> bool" where
  "is_earliest m S = (m \<in> S \<and> (\<forall>d\<in>S. date_le m d))"

section \<open>Facts about dates\<close>

lemma date_lt_irrefl: "\<not> date_lt a a"
  by (simp add: date_lt_def)

lemma date_lt_total: "a = b \<or> date_lt a b \<or> date_lt b a"
  by (cases a, cases b) (auto simp: date_lt_def)

lemma date_lt_asym: "date_lt a b \<Longrightarrow> \<not> date_lt b a"
  by (auto simp: date_lt_def)

lemma days_in_month_pos: "28 \<le> days_in_month y m"
  by (simp add: days_in_month_def)

lemma days_before_month_step:
  "1 \<le> m \<Longrightarrow> m < 12 \<Longrightarrow> days_before_month y (m + 1) = days_before_month y m + days_in_month y m"
proof -
  assume "1 \<le> m" "m < 12"
  then have "m = 1 \<or> m = 2 \<or> m = 3 \<or> m = 4 \<or> m = 5 \<or> m = 6 \<or> m = 7 \<or> m = 8
      \<or> m = 9 \<or> m = 10 \<or> m = 11"
    by arith
  then show ?thesis
    by (elim disjE) (simp_all add: days_before_month_def days_in_month_def)
qed

lemma days_before_month_mono_aux:
  "1 \<le> m \<Longrightarrow> m + int k < 12 \<Longrightarrow>
   days_before_month y m + days_in_month y m \<le> days_before_month y (m + int k + 1)"
proof (induction k)
  case 0
  then show ?case by (simp add: days_before_month_step)
next
  case (Suc k)
  then have "days_before_month y m + days_in_month y m \<le> days_before_month y (m + int k + 1)"
    by simp
  moreover have "days_before_month y (m + int k + 1 + 1)
      = days_before_month y (m + int k + 1) + days_in_month y (m + int k + 1)"
    using Suc.prems by (intro days_before_month_step) auto
  moreover have "0 \<le> days_in_month y (m + int k + 1)"
    using days_in_month_pos [of y "m + int k + 1"] by linarith
  ultimately show ?case
    by (simp add: add.commute add.left_commute)
qed

lemma days_before_month_mono:
  assumes "1 \<le> m" "m < m'" "m' \<le> 12"
  shows "days_before_month y m + days_in_month y m \<le> days_before_month y m'"
proof -
  obtain k where k: "m' = m + int k + 1"
    using assms(2) by (metis add.assoc zless_iff_Suc_zadd of_nat_Suc add.commute)
  with assms have "m + int k < 12" by simp
  from days_before_month_mono_aux [OF assms(1) this, of y] k show ?thesis by simp
qed

lemma div_pred:
  fixes y n :: int
  assumes "1 < n"
  shows "y div n = (y - 1) div n + (if y mod n = 0 then 1 else 0)"
proof (cases "y mod n = 0")
  case True
  then have y: "y = n * (y div n)" by (simp add: mod_eq_0_iff_dvd)
  have "y - 1 = n * (y div n - 1) + (n - 1)"
    using y by (simp add: algebra_simps)
  from int_div_pos_eq [OF this] assms have "(y - 1) div n = y div n - 1" by simp
  with True show ?thesis by simp
next
  case False
  have "0 \<le> y mod n" "y mod n < n" using assms by simp_all
  with False have r: "0 \<le> y mod n - 1" "y mod n - 1 < n" by simp_all
  have "y - 1 = n * (y div n) + (y mod n - 1)"
    by (simp add: algebra_simps)
  from int_div_pos_eq [OF this r] False show ?thesis by simp
qed

lemma mod_400_100: "(y::int) mod 400 = 0 \<longrightarrow> y mod 100 = 0"
proof
  assume "y mod 400 = 0"
  then have "400 dvd y" by (simp add: mod_eq_0_iff_dvd)
  moreover have "(100::int) dvd 400" by simp
  ultimately have "100 dvd y" by (rule dvd_trans [rotated])
  then show "y mod 100 = 0" by (simp add: mod_eq_0_iff_dvd)
qed

lemma mod_100_4: "(y::int) mod 100 = 0 \<longrightarrow> y mod 4 = 0"
proof
  assume "y mod 100 = 0"
  then have "100 dvd y" by (simp add: mod_eq_0_iff_dvd)
  moreover have "(4::int) dvd 100" by simp
  ultimately have "4 dvd y" by (rule dvd_trans [rotated])
  then show "y mod 4 = 0" by (simp add: mod_eq_0_iff_dvd)
qed

lemma year_step_linear:
  fixes y :: int
  assumes "q4 = p4 + a" "q100 = p100 + b" "q400 = p400 + c"
    and "A = y * 365 + q4 - q100 + q400" and "B = (y - 1) * 365 + p4 - p100 + p400"
  shows "A = B + 365 + a - b + c"
  using assms by (simp add: algebra_simps)

lemma leap_count:
  assumes "P400 \<longrightarrow> P100" "P100 \<longrightarrow> P4"
  shows "365 + (if P4 then 1 else 0) - (if P100 then 1 else 0) + (if P400 then 1 else 0)
    = (if P4 \<and> (\<not> P100 \<or> P400) then 366 else (365::int))"
  using assms by (cases P4; cases P100; cases P400; simp)

lemma days_in_year:
  "days_before_year (y + 1) = days_before_year y + (if is_leap y then 366 else 365)"
proof -
  define a b c :: int where "a = (if y mod 4 = 0 then 1 else 0)"
    and "b = (if y mod 100 = 0 then 1 else 0)" and "c = (if y mod 400 = 0 then 1 else 0)"
  have "y div 4 = (y - 1) div 4 + a" "y div 100 = (y - 1) div 100 + b"
    "y div 400 = (y - 1) div 400 + c"
    unfolding a_def b_def c_def by (rule div_pred, simp)+
  moreover have "days_before_year (y + 1) = y * 365 + y div 4 - y div 100 + y div 400"
    unfolding days_before_year_def add_diff_cancel_right' by (rule refl)
  moreover have "days_before_year y
      = (y - 1) * 365 + (y - 1) div 4 - (y - 1) div 100 + (y - 1) div 400"
    unfolding days_before_year_def by (rule refl)
  ultimately have "days_before_year (y + 1) = days_before_year y + 365 + a - b + c"
    by (rule year_step_linear)
  moreover have "365 + a - b + c = (if is_leap y then 366 else 365)"
    unfolding a_def b_def c_def is_leap_def by (rule leap_count) (rule mod_400_100 mod_100_4)+
  ultimately show ?thesis by (simp only:)
qed

lemma days_before_year_mono_aux:
  "days_before_year y + (if is_leap y then 366 else 365) \<le> days_before_year (y + int k + 1)"
proof (induction k)
  case 0
  then show ?case by (simp add: days_in_year)
next
  case (Suc k)
  have "days_before_year (y + int k + 1 + 1) =
      days_before_year (y + int k + 1) + (if is_leap (y + int k + 1) then 366 else 365)"
    by (rule days_in_year)
  with Suc show ?case by (simp add: add.commute add.left_commute split: if_splits)
qed

lemma days_before_year_mono:
  assumes "y < y'"
  shows "days_before_year y + (if is_leap y then 366 else 365) \<le> days_before_year y'"
proof -
  obtain k where "y' = y + int k + 1"
    using assms by (metis add.assoc zless_iff_Suc_zadd of_nat_Suc add.commute)
  with days_before_year_mono_aux [of y k] show ?thesis by simp
qed

lemma day_of_year_le:
  assumes "valid_date d"
  shows "days_before_month (year d) (month d) + day d \<le> (if is_leap (year d) then 366 else 365)"
proof -
  from assms have m: "1 \<le> month d" "month d \<le> 12"
    and dd: "day d \<le> days_in_month (year d) (month d)"
    by (simp_all add: valid_date_def)
  show ?thesis
  proof (cases "month d = 12")
    case True
    with dd show ?thesis by (simp add: days_before_month_def days_in_month_def)
  next
    case False
    with m have "month d < 12" by simp
    from days_before_month_mono [OF m(1) this, of "year d"]
    have "days_before_month (year d) (month d) + days_in_month (year d) (month d)
        \<le> days_before_month (year d) 12" by simp
    with dd show ?thesis by (simp add: days_before_month_def split: if_splits)
  qed
qed

lemma days_before_month_nonneg: "0 \<le> days_before_month y m"
  by (simp add: days_before_month_def)

lemma toordinal_strict_mono:
  assumes "valid_date a" "valid_date b" "date_lt a b"
  shows "toordinal a < toordinal b"
proof -
  from assms(3) consider
      (y) "year a < year b"
    | (m) "year a = year b" "month a < month b"
    | (d) "year a = year b" "month a = month b" "day a < day b"
    by (auto simp: date_lt_def)
  then show ?thesis
  proof cases
    case y
    from days_before_year_mono [OF y] day_of_year_le [OF assms(1)]
    have "toordinal a \<le> days_before_year (year b)"
      by (simp add: toordinal_def split: if_splits)
    moreover have "1 \<le> day b" using assms(2) by (simp add: valid_date_def)
    ultimately show ?thesis
      using days_before_month_nonneg [of "year b" "month b"] by (simp add: toordinal_def)
  next
    case m
    from assms have "1 \<le> month a" "month b \<le> 12" "day a \<le> days_in_month (year a) (month a)"
      "1 \<le> day b"
      by (simp_all add: valid_date_def)
    with days_before_month_mono [OF \<open>1 \<le> month a\<close> m(2) \<open>month b \<le> 12\<close>, of "year a"] m(1)
    show ?thesis by (simp add: toordinal_def)
  next
    case d
    then show ?thesis by (simp add: toordinal_def)
  qed
qed

lemma toordinal_mono:
  assumes "valid_date a" "valid_date b" "\<not> date_lt b a"
  shows "toordinal a \<le> toordinal b"
proof -
  from date_lt_total [of a b] assms(3) have "a = b \<or> date_lt a b" by blast
  then show ?thesis
    using toordinal_strict_mono [OF assms(1,2)] by auto
qed


section \<open>Derived fields of a record\<close>

lemma post_init_raw [simp]:
  "source (post_init r) = source r" "employer (post_init r) = employer r"
  "start_date (post_init r) = start_date r" "end_date (post_init r) = end_date r"
  "issue_date (post_init r) = issue_date r"
  by (simp_all add: post_init_def Let_def)

lemma post_init_derived:
  "effective_end_date (post_init r) = compute_effective_end (start_date r) (end_date r) (issue_date r)"
  "experience_days (post_init r) = compute_days (start_date r)
     (compute_effective_end (start_date r) (end_date r) (issue_date r))"
  by (simp_all add: post_init_def Let_def)

lemma new_ExperienceRecord_raw [simp]:
  "source (new_ExperienceRecord src emp s e i) = src"
  "employer (new_ExperienceRecord src emp s e i) = emp"
  "start_date (new_ExperienceRecord src emp s e i) = s"
  "end_date (new_ExperienceRecord src emp s e i) = e"
  "issue_date (new_ExperienceRecord src emp s e i) = i"
  by (simp_all add: new_ExperienceRecord_def)

lemma new_ExperienceRecord_derived:
  "effective_end_date (new_ExperienceRecord src emp s e i) = compute_effective_end s e i"
  "experience_days (new_ExperienceRecord src emp s e i)
     = compute_days s (compute_effective_end s e i)"
  by (simp_all add: new_ExperienceRecord_def post_init_derived)

lemma compute_effective_end_cases:
  "compute_effective_end None e i = None"
  "compute_effective_end (Some s) None None = None"
  "compute_effective_end (Some s) (Some a) None = Some a"
  "compute_effective_end (Some s) None (Some b) = Some b"
  "compute_effective_end (Some s) (Some a) (Some b) = Some (if date_lt b a then b else a)"
  by (simp_all add: compute_effective_end_def List.map_filter_simps)

lemma compute_effective_end_in:
  "compute_effective_end s e i = Some m \<Longrightarrow> m \<in> set_option e \<union> set_option i"
  by (cases s; cases e; cases i) (auto simp: compute_effective_end_cases split: if_splits)

text \<open>
  C3. The effective end date of a constructed record is null when the start date is null or
  when neither an end date nor an issue date is present; otherwise it is the earliest of
  the end and issue dates that are present.
\<close>

theorem effective_end_date_earliest:
  "(case effective_end_date (new_ExperienceRecord src emp s e i) of
      None \<Rightarrow> s = None \<or> (e = None \<and> i = None)
    | Some m \<Rightarrow> s \<noteq> None \<and> is_earliest m (set_option e \<union> set_option i))"
proof (cases s)
  case None
  then show ?thesis by (simp add: new_ExperienceRecord_derived compute_effective_end_cases)
next
  case (Some s')
  show ?thesis
  proof (cases e)
    case None
    then show ?thesis
      using Some
      by (cases i)
        (simp_all add: new_ExperienceRecord_derived compute_effective_end_cases
          is_earliest_def date_le_def)
  next
    case e: (Some a)
    show ?thesis
    proof (cases i)
      case None
      then show ?thesis
        using Some e
        by (simp add: new_ExperienceRecord_derived compute_effective_end_cases
            is_earliest_def date_le_def)
    next
      case i: (Some b)
      from date_lt_total [of a b] show ?thesis
        using Some e i
        by (auto simp: new_ExperienceRecord_derived compute_effective_end_cases
            is_earliest_def date_le_def dest: date_lt_asym)
    qed
  qed
qed

theorem effective_end_date_earliest_witness:
  "effective_end_date (new_ExperienceRecord ''Certificado'' (Some ''Empresa'')
      (Some \<lparr>year = 2020, month = 1, day = 1\<rparr>)
      (Some \<lparr>year = 2020, month = 12, day = 31\<rparr>)
      (Some \<lparr>year = 2020, month = 6, day = 30\<rparr>))
     = Some \<lparr>year = 2020, month = 6, day = 30\<rparr>
   \<and> is_earliest \<lparr>year = 2020, month = 6, day = 30\<rparr>
        {\<lparr>year = 2020, month = 6, day = 30\<rparr>, \<lparr>year = 2020, month = 12, day = 31\<rparr>}"
  using effective_end_date_earliest [where src = "''Certificado''" and emp = "Some ''Empresa''"
      and s = "Some \<lparr>year = 2020, month = 1, day = 1\<rparr>"
      and e = "Some \<lparr>year = 2020, month = 12, day = 31\<rparr>"
      and i = "Some \<lparr>year = 2020, month = 6, day = 30\<rparr>"]
  by (simp add: new_ExperienceRecord_derived compute_effective_end_cases date_lt_def)

text \<open>
  C4. When the start date and the effective end date of a constructed record are both
  present, its day count is the day difference plus one, and 0 where that would be
  negative; when either is null the day count is null. Python only builds calendar days,
  which is the hypothesis on the three raw dates.
\<close>

theorem experience_days_clamped:
  assumes "\<forall>d \<in> set_option s \<union> set_option e \<union> set_option i. valid_date d"
  shows "experience_days (new_ExperienceRecord src emp s e i) =
     (case (s, effective_end_date (new_ExperienceRecord src emp s e i)) of
        (Some a, Some b) \<Rightarrow> Some (max 0 (days_between b a + 1))
      | _ \<Rightarrow> None)"
proof (cases s)
  case None
  then show ?thesis by (simp add: new_ExperienceRecord_derived compute_days_def)
next
  case (Some a)
  show ?thesis
  proof (cases "compute_effective_end s e i")
    case None
    then show ?thesis using Some by (simp add: new_ExperienceRecord_derived compute_days_def)
  next
    case eff: (Some b)
    from compute_effective_end_in [OF eff] assms have vb: "valid_date b" by blast
    from assms Some have va: "valid_date a" by simp
    have key: "max 0 (days_between b a + 1) = (if date_lt b a then 0 else days_between b a + 1)"
    proof (cases "date_lt b a")
      case True
      from toordinal_strict_mono [OF vb va True] True show ?thesis
        by (simp add: days_between_def)
    next
      case False
      from toordinal_mono [OF va vb False] False show ?thesis
        by (simp add: days_between_def)
    qed
    show ?thesis
      using Some eff by (simp add: new_ExperienceRecord_derived compute_days_def key)
  qed
qed

theorem experience_days_clamped_witness:
  "valid_date \<lparr>year = 2020, month = 1, day = 1\<rparr>
   \<and> valid_date \<lparr>year = 2020, month = 12, day = 31\<rparr>
   \<and> valid_date \<lparr>year = 2020, month = 6, day = 30\<rparr>
   \<and> experience_days (new_ExperienceRecord ''Certificado'' (Some ''Empresa'')
      (Some \<lparr>year = 2020, month = 1, day = 1\<rparr>)
      (Some \<lparr>year = 2020, month = 12, day = 31\<rparr>)
      (Some \<lparr>year = 2020, month = 6, day = 30\<rparr>)) = Some 182"
proof -
  have h: "\<forall>d \<in> set_option (Some \<lparr>year = 2020, month = 1, day = 1\<rparr>)
        \<union> set_option (Some \<lparr>year = 2020, month = 12, day = 31\<rparr>)
        \<union> set_option (Some \<lparr>year = 2020, month = 6, day = 30\<rparr>). valid_date d"
    by (simp add: valid_date_def days_in_month_def is_leap_def)
  from experience_days_clamped [OF h, where src = "''Certificado''" and emp = "Some ''Empresa''"] h
  show ?thesis
    by (simp add: new_ExperienceRecord_derived compute_effective_end_cases date_lt_def
        days_between_def toordinal_def days_before_year_def days_before_month_def is_leap_def)
qed


section \<open>The reconciler\<close>

lemma best_match_score_pair:
  "best_match ratio cert ics best = Some (b, bi) \<Longrightarrow>
   (\<forall>b0 i0. best = Some (b0, i0) \<longrightarrow> b0 = score_pair ratio cert (cvs ! i0) \<and> i0 < length cvs) \<Longrightarrow>
   (\<forall>(i, cv) \<in> set ics. i < length cvs \<and> cv = cvs ! i) \<Longrightarrow>
   b = score_pair ratio cert (cvs ! bi) \<and> bi < length cvs"
proof (induction ics arbitrary: best)
  case Nil
  then show ?case by simp
next
  case (Cons x ics)
  obtain idx cv where x: "x = (idx, cv)" by (cases x)
  show ?case
  proof (rule Cons.IH)
    show "best_match ratio cert ics
        (case best of None \<Rightarrow> Some (score_pair ratio cert cv, idx)
         | Some (b, bi) \<Rightarrow> if score b < score (score_pair ratio cert cv)
             then Some (score_pair ratio cert cv, idx) else Some (b, bi)) = Some (b, bi)"
      using Cons.prems(1) x by (simp add: Let_def)
    show "\<forall>b0 i0. (case best of None \<Rightarrow> Some (score_pair ratio cert cv, idx)
         | Some (b, bi) \<Rightarrow> if score b < score (score_pair ratio cert cv)
             then Some (score_pair ratio cert cv, idx) else Some (b, bi)) = Some (b0, i0)
        \<longrightarrow> b0 = score_pair ratio cert (cvs ! i0) \<and> i0 < length cvs"
      using Cons.prems(2,3) x by (auto split: option.splits if_splits)
    show "\<forall>(i, cv) \<in> set ics. i < length cvs \<and> cv = cvs ! i"
      using Cons.prems(3) by simp
  qed
qed

lemma enumerate_nth: "\<forall>(i, cv) \<in> set (enumerate 0 cvs). i < length cvs \<and> cv = cvs ! i"
  by (auto simp: enumerate_eq_zip in_set_zip)

lemma best_match_enumerate:
  "best_match ratio cert (enumerate 0 cvs) None = Some (b, bi) \<Longrightarrow>
   b = score_pair ratio cert (cvs ! bi) \<and> bi < length cvs"
  using best_match_score_pair [where best = None and ics = "enumerate 0 cvs" and cvs = cvs]
    enumerate_nth [of cvs]
  by simp

lemma certificate_step_eq:
  "certificate_step ratio cvs st c =
     (fst st @ [certificate_row ratio cvs c],
      (case matched_index ratio cvs c of None \<Rightarrow> snd st | Some i \<Rightarrow> insert i (snd st)))"
proof (cases "best_match ratio c (enumerate 0 cvs) None")
  case None
  then show ?thesis
    by (simp add: certificate_step_def certificate_row_def matched_index_def)
next
  case (Some p)
  obtain b bi where p: "p = (b, bi)" by (cases p)
  from best_match_enumerate [of ratio c cvs b bi] Some p
  have "b = score_pair ratio c (cvs ! bi)" by simp
  then show ?thesis
    using Some p by (simp add: certificate_step_def certificate_row_def matched_index_def Let_def)
qed

lemma foldl_certificate_step:
  "foldl (certificate_step ratio cvs) st certs =
     (fst st @ map (certificate_row ratio cvs) certs,
      snd st \<union> {i. \<exists>c \<in> set certs. matched_index ratio cvs c = Some i})"
proof (induction certs arbitrary: st)
  case Nil
  then show ?case by simp
next
  case (Cons c certs)
  have "foldl (certificate_step ratio cvs) st (c # certs)
      = foldl (certificate_step ratio cvs) (certificate_step ratio cvs st c) certs"
    by simp
  also have "\<dots> = (fst (certificate_step ratio cvs st c) @ map (certificate_row ratio cvs) certs,
      snd (certificate_step ratio cvs st c)
        \<union> {i. \<exists>c \<in> set certs. matched_index ratio cvs c = Some i})"
    by (rule Cons.IH)
  also have "\<dots> = (fst st @ map (certificate_row ratio cvs) (c # certs),
      snd st \<union> {i. \<exists>c \<in> set (c # certs). matched_index ratio cvs c = Some i})"
    unfolding certificate_step_eq [of ratio cvs st c]
    by (cases "matched_index ratio cvs c") auto
  finally show ?case .
qed

lemma enumerate_rows:
  "map (\<lambda>(idx, cv). f cv) (filter (\<lambda>(idx, cv). P idx) (enumerate 0 cvs))
     = map (\<lambda>i. f (cvs ! i)) (filter P [0..<length cvs])"
proof -
  have "enumerate 0 cvs = map (\<lambda>i. (i, cvs ! i)) [0..<length cvs]"
    by (rule nth_equalityI) (simp_all add: nth_enumerate_eq)
  then show ?thesis
    by (simp add: filter_map o_def)
qed

lemma compare_decomposition:
  "compare_certificates_with_cv ratio certs cvs =
     map (certificate_row ratio cvs) certs
     @ map (\<lambda>i. cv_only_row (cvs ! i))
         (filter (\<lambda>i. i \<notin> used_cv_indices ratio certs cvs) [0..<length cvs])"
  by (simp add: compare_certificates_with_cv_def used_cv_indices_def Let_def enumerate_rows
      match_certificates_def foldl_certificate_step)

lemma used_cv_indices_eq:
  "used_cv_indices ratio certs cvs = {i. \<exists>c \<in> set certs. matched_index ratio cvs c = Some i}"
  by (simp add: used_cv_indices_def match_certificates_def foldl_certificate_step)


lemmas text_defs = normalize_name_def lower_def lower_char_def is_upper_def in_range_def
  replacements_def replace_char_def isalnum_def isspace_def strip_def

lemma normalize_examples:
  "normalize_name (Some ''ABC'') = ''abc''" "normalize_name (Some ''Abc'') = ''abc''"
  "normalize_name (Some ''abc'') = ''abc''" "normalize_name (Some ''XYZ'') = ''xyz''"
  "normalize_name None = []"
  by (simp_all add: text_defs)

lemmas flm_defs = find_longest_match_def b2j_range_def popular_def upt_rec
  extend_left.simps extend_right.simps

lemma seq_ratio_abc_abc: "seq_ratio ''abc'' ''abc'' = 1"
proof -
  have "find_longest_match ''abc'' ''abc'' 0 3 0 3 = (0, 0, 3)"
    by (simp add: flm_defs)
  then have "count_matches ''abc'' ''abc'' 0 3 0 3 = 3"
    by (subst count_matches.simps) simp
  moreover have "length ''abc'' = 3" by simp
  ultimately show ?thesis
    unfolding seq_ratio_def Let_def by (simp only:) simp
qed

lemma seq_ratio_abc_xyz: "seq_ratio ''abc'' ''xyz'' = 0"
proof -
  have "find_longest_match ''abc'' ''xyz'' 0 3 0 3 = (0, 0, 0)"
    by (simp add: flm_defs)
  then have "count_matches ''abc'' ''xyz'' 0 3 0 3 = 0"
    by (subst count_matches.simps) simp
  moreover have "length ''abc'' = 3" "length ''xyz'' = 3" by simp_all
  ultimately show ?thesis
    unfolding seq_ratio_def Let_def by (simp only:) simp
qed

lemma toordinal_examples:
  "toordinal d_2020_01_01 = 737425" "toordinal d_2020_03_01 = 737485"
  by (simp_all add: toordinal_def days_before_year_def days_before_month_def is_leap_def
      d_2020_01_01_def d_2020_03_01_def)

lemma example_fields:
  "employer cert_a = Some ''ABC''" "start_date cert_a = Some d_2020_01_01"
  "employer cert_b = Some ''Abc''" "start_date cert_b = Some d_2020_03_01"
  "employer cert_none = None" "start_date cert_none = Some d_2020_01_01"
  "employer cv_a = Some ''abc''" "start_date cv_a = Some d_2020_01_01"
  "employer cv_x = Some ''XYZ''" "start_date cv_x = Some d_2020_01_01"
  by (simp_all add: cert_a_def cert_b_def cert_none_def cv_a_def cv_x_def)

lemmas score_defs = score_pair_def employer_similarity_def date_difference_def or_int_def
  days_between_def Let_def

lemma example_scores:
  "score (score_pair seq_ratio cert_a cv_a) = 1"
  "score (score_pair seq_ratio cert_a cv_x) = 3 / 10"
  "score (score_pair seq_ratio cert_b cv_a) = 4 / 5"
  "score (score_pair seq_ratio cert_b cv_x) = 1 / 10"
  "score (score_pair seq_ratio cert_none cv_a) = 3 / 10"
  "score (score_pair seq_ratio cert_none cv_x) = 3 / 10"
  "ms_start_date_match (score_pair seq_ratio cert_a cv_a)"
  "\<not> ms_start_date_match (score_pair seq_ratio cert_b cv_a)"
  by (simp_all add: score_defs example_fields normalize_examples seq_ratio_abc_abc
      seq_ratio_abc_xyz toordinal_examples)

lemma example_matched:
  "matched_index seq_ratio [cv_a, cv_x] cert_a = Some 0"
  "matched_index seq_ratio [cv_a, cv_x] cert_b = Some 0"
  "matched_index seq_ratio [cv_a, cv_x] cert_none = None"
  by (simp_all add: matched_index_def enumerate_eq_zip upt_rec example_scores Let_def)

lemma example_matched_single:
  "matched_index seq_ratio [cv_a] cert_a = Some 0"
  "matched_index seq_ratio [cv_a] cert_b = Some 0"
  by (simp_all add: matched_index_def enumerate_eq_zip upt_rec example_scores Let_def)

text \<open>
  C2. The score of a pair is 0.7 times the similarity of the normalized employer names
  (0 when either is empty) plus 0.3 times the closeness of the start dates: 1 when both
  are present and at most 7 days apart, otherwise \<open>1 / (1 + d / 30)\<close> for the day difference
  \<open>d\<close>, with \<open>d = 60\<close> when a start date is missing. The code writes \<open>start_diff or 60\<close>,
  which would also replace a difference of 0, but a difference of 0 takes the first branch.
\<close>

theorem score_pair_formula:
  "score (score_pair ratio cert cv) =
     0.7 * spec_name_similarity ratio (employer cert) (employer cv)
     + 0.3 * spec_date_closeness (start_date cert) (start_date cv)"
proof -
  have sim: "employer_similarity ratio (employer cert) (employer cv)
      = spec_name_similarity ratio (employer cert) (employer cv)"
    by (simp add: employer_similarity_def spec_name_similarity_def Let_def)
  have dt: "(let start_diff = date_difference (start_date cert) (start_date cv);
                 start_match = (case start_diff of None \<Rightarrow> False | Some d \<Rightarrow> d \<le> 7)
             in if start_match then 1 else 1 / (1 + real_of_int (or_int start_diff 60) / 30))
      = spec_date_closeness (start_date cert) (start_date cv)"
  proof (cases "start_date cert")
    case None
    then show ?thesis
      by (simp add: date_difference_def spec_date_closeness_def or_int_def)
  next
    case a: (Some x)
    show ?thesis
    proof (cases "start_date cv")
      case None
      then show ?thesis
        using a by (simp add: date_difference_def spec_date_closeness_def or_int_def)
    next
      case (Some y)
      then show ?thesis
        using a by (simp add: date_difference_def spec_date_closeness_def or_int_def Let_def)
    qed
  qed
  show ?thesis
    unfolding sim [symmetric] dt [symmetric] by (simp add: score_pair_def Let_def)
qed

theorem score_pair_formula_witness:
  "score (score_pair seq_ratio cert_b cv_a) = 4 / 5
   \<and> spec_name_similarity seq_ratio (employer cert_b) (employer cv_a) = 1
   \<and> spec_date_closeness (start_date cert_b) (start_date cv_a) = 1 / 3"
  using score_pair_formula [of seq_ratio cert_b cv_a]
  by (simp add: spec_name_similarity_def spec_date_closeness_def example_fields
      normalize_examples seq_ratio_abc_abc toordinal_examples days_between_def)


lemma example_rows:
  "certificate_row seq_ratio [cv_a] cert_a =
     \<lparr>certificate = cert_a, cv_entry = Some cv_a, start_date_match = True,
      details = ''Coincidencia por empleador y fecha''\<rparr>"
  "certificate_row seq_ratio [cv_a] cert_b =
     \<lparr>certificate = cert_b, cv_entry = Some cv_a, start_date_match = False,
      details = ''Coincidencia parcial''\<rparr>"
  by (simp_all add: certificate_row_def example_matched_single example_scores Let_def)

lemma example_rows2:
  "certificate_row seq_ratio [cv_a, cv_x] cert_a =
     \<lparr>certificate = cert_a, cv_entry = Some cv_a, start_date_match = True,
      details = ''Coincidencia por empleador y fecha''\<rparr>"
  "certificate_row seq_ratio [cv_a, cv_x] cert_b =
     \<lparr>certificate = cert_b, cv_entry = Some cv_a, start_date_match = False,
      details = ''Coincidencia parcial''\<rparr>"
  "certificate_row seq_ratio [cv_a, cv_x] cert_none =
     \<lparr>certificate = cert_none, cv_entry = None, start_date_match = False,
      details = unmatched_details\<rparr>"
  by (simp_all add: certificate_row_def example_matched example_scores Let_def)

text \<open>
  C1, as stated, fails: the inner loop scores every r\'esum\'e entry for every certificate,
  so a second certificate is given the entry that the first one consumed.
\<close>

theorem later_certificate_reuses_cv_entry:
  "map cv_entry (compare_certificates_with_cv seq_ratio [cert_a, cert_b] [cv_a])
     = [Some cv_a, Some cv_a]"
  by (simp add: compare_decomposition used_cv_indices_eq example_rows example_matched_single)

text \<open>
  C1, amended. Every certificate is matched against the whole r\'esum\'e list, whatever the
  earlier certificates consumed: its row is \<open>certificate_row\<close>, a function of the certificate
  and the list alone, so one r\'esum\'e record can be the \<open>cv_entry\<close> of several rows. After
  the certificate rows comes one r\'esum\'e-only row for each position that no certificate
  matched, in order, and none for a position that some certificate matched.
\<close>

theorem certificates_matched_independently:
  "compare_certificates_with_cv ratio certs cvs =
     map (certificate_row ratio cvs) certs
     @ map (\<lambda>i. cv_only_row (cvs ! i))
         (filter (\<lambda>i. \<forall>c \<in> set certs. matched_index ratio cvs c \<noteq> Some i) [0..<length cvs])"
proof -
  have "(\<lambda>i. i \<notin> used_cv_indices ratio certs cvs)
      = (\<lambda>i. \<forall>c \<in> set certs. matched_index ratio cvs c \<noteq> Some i)"
    by (auto simp: used_cv_indices_eq)
  then show ?thesis
    by (simp add: compare_decomposition)
qed

theorem certificates_matched_independently_witness:
  "compare_certificates_with_cv seq_ratio [cert_a, cert_b, cert_none] [cv_a, cv_x] =
     [\<lparr>certificate = cert_a, cv_entry = Some cv_a, start_date_match = True,
        details = ''Coincidencia por empleador y fecha''\<rparr>,
      \<lparr>certificate = cert_b, cv_entry = Some cv_a, start_date_match = False,
        details = ''Coincidencia parcial''\<rparr>,
      \<lparr>certificate = cert_none, cv_entry = None, start_date_match = False,
        details = unmatched_details\<rparr>,
      cv_only_row cv_x]"
  using certificates_matched_independently [of seq_ratio "[cert_a, cert_b, cert_none]" "[cv_a, cv_x]"]
  by (simp add: example_rows2 example_matched upt_rec)

text \<open>
  C10. A r\'esum\'e record whose position is not among the used indices has a r\'esum\'e-only
  row after the certificate rows. The synthetic certificate record of that row has no
  issue date, whatever the r\'esum\'e record's own, so its effective end date is the end
  date (null without a start date) and its day count follows from start and end alone.
\<close>

theorem cv_only_row_ignores_issue_date:
  assumes "i < length cvs" and "i \<notin> used_cv_indices ratio certs cvs"
  shows "cv_only_row (cvs ! i) \<in> set (drop (length certs) (compare_certificates_with_cv ratio certs cvs))
    \<and> cv_entry (cv_only_row (cvs ! i)) = Some (cvs ! i)
    \<and> issue_date (certificate (cv_only_row (cvs ! i))) = None
    \<and> effective_end_date (certificate (cv_only_row (cvs ! i)))
        = (if start_date (cvs ! i) = None then None else end_date (cvs ! i))
    \<and> experience_days (certificate (cv_only_row (cvs ! i)))
        = compute_days (start_date (cvs ! i))
            (if start_date (cvs ! i) = None then None else end_date (cvs ! i))"
proof -
  have "i \<in> set (filter (\<lambda>i. i \<notin> used_cv_indices ratio certs cvs) [0..<length cvs])"
    using assms by simp
  then have "cv_only_row (cvs ! i)
      \<in> set (drop (length certs) (compare_certificates_with_cv ratio certs cvs))"
    by (simp add: compare_decomposition del: set_filter)
  moreover have "compute_effective_end (start_date (cvs ! i)) (end_date (cvs ! i)) None
      = (if start_date (cvs ! i) = None then None else end_date (cvs ! i))"
    by (cases "start_date (cvs ! i)"; cases "end_date (cvs ! i)")
      (simp_all add: compute_effective_end_cases)
  ultimately show ?thesis
    by (simp add: cv_only_row_def new_ExperienceRecord_derived)
qed

theorem cv_only_row_ignores_issue_date_witness:
  "1 \<notin> used_cv_indices seq_ratio [cert_a] [cv_a, cv_x]
   \<and> issue_date cv_x = Some d_2020_06_30
   \<and> effective_end_date cv_x = Some d_2020_06_30
   \<and> cv_only_row cv_x \<in> set (drop 1 (compare_certificates_with_cv seq_ratio [cert_a] [cv_a, cv_x]))
   \<and> issue_date (certificate (cv_only_row cv_x)) = None
   \<and> effective_end_date (certificate (cv_only_row cv_x)) = Some d_2020_12_31
   \<and> experience_days (certificate (cv_only_row cv_x)) = Some 366"
proof -
  have u: "(1::nat) \<notin> used_cv_indices seq_ratio [cert_a] [cv_a, cv_x]"
    by (simp add: used_cv_indices_eq example_matched)
  have l: "(1::nat) < length [cv_a, cv_x]" by simp
  from cv_only_row_ignores_issue_date [OF l u] u show ?thesis
    by (simp add: cv_x_def new_ExperienceRecord_derived compute_effective_end_cases
        compute_days_def date_lt_def days_between_def toordinal_def days_before_year_def
        days_before_month_def is_leap_def d_2020_01_01_def d_2020_06_30_def d_2020_12_31_def)
qed



section \<open>Merging: grouping\<close>

lemma add_to_group_keys_old: "k \<in> fst ` set g \<Longrightarrow> map fst (add_to_group k r g) = map fst g"
proof (induction g)
  case Nil
  then show ?case by simp
next
  case (Cons p g)
  obtain k' rs where p: "p = (k', rs)" by (cases p)
  show ?case
  proof (cases "k = k'")
    case True
    with p show ?thesis by simp
  next
    case False
    with Cons.prems p have "k \<in> fst ` set g" by auto
    with Cons.IH False p show ?thesis by simp
  qed
qed

lemma add_to_group_keys_new:
  "k \<notin> fst ` set g \<Longrightarrow> map fst (add_to_group k r g) = map fst g @ [k]"
  by (induction g) auto

lemma add_to_group_keys:
  "map fst (add_to_group k r g) = (if k \<in> set (map fst g) then map fst g else map fst g @ [k])"
  by (simp add: add_to_group_keys_old add_to_group_keys_new)

lemma add_to_group_lookup:
  "map_of (add_to_group k r g) k' =
     (if k' = k then Some ((case map_of g k of None \<Rightarrow> [] | Some xs \<Rightarrow> xs) @ [r])
      else map_of g k')"
  by (induction g) auto

lemma add_to_group_distinct:
  "distinct (map fst g) \<Longrightarrow> distinct (map fst (add_to_group k r g))"
  by (simp add: add_to_group_keys)

lemma foldl_add_to_group:
  "distinct (map fst g) \<Longrightarrow>
   distinct (map fst (foldl (\<lambda>g r. add_to_group (key r) r g) g rs))
   \<and> (\<forall>k. map_of (foldl (\<lambda>g r. add_to_group (key r) r g) g rs) k =
        (case map_of g k of
           None \<Rightarrow> (if k \<in> key ` set rs then Some (filter (\<lambda>r. key r = k) rs) else None)
         | Some xs \<Rightarrow> Some (xs @ filter (\<lambda>r. key r = k) rs)))"
proof (induction rs arbitrary: g)
  case Nil
  then show ?case by (auto split: option.splits)
next
  case (Cons r rs)
  have d: "distinct (map fst (add_to_group (key r) r g))"
    using Cons.prems by (rule add_to_group_distinct)
  from Cons.IH [OF d] show ?case
    by (auto simp: add_to_group_lookup split: option.splits)
qed

lemma group_records_lookup:
  "map_of (group_records h rs) k =
     (if k \<in> (\<lambda>r. merge_key (h r)) ` set rs
      then Some (filter (\<lambda>r. merge_key (h r) = k) rs) else None)"
  using foldl_add_to_group [of "[]" "\<lambda>r. merge_key (h r)" rs]
  by (simp add: group_records_def)

lemma group_records_distinct: "distinct (map fst (group_records h rs))"
  using foldl_add_to_group [of "[]" "\<lambda>r. merge_key (h r)" rs]
  by (simp add: group_records_def)

text \<open>
  C5, amended. The records are grouped under the employer name, the empty string for a
  missing one, trimmed of surrounding white space and lower-cased, and under nothing
  else: the keys of the dictionary are distinct, they are the keys of the records, and
  the group of a key holds, in input order, the records with that key.
\<close>

theorem groups_by_trimmed_lowercase_employer:
  "distinct (map fst (group_records h records))
   \<and> fst ` set (group_records h records) = (\<lambda>r. merge_key (h r)) ` set records
   \<and> (\<forall>(k, items) \<in> set (group_records h records).
         items \<noteq> [] \<and> items = filter (\<lambda>r. merge_key (h r) = k) records)"
proof (intro conjI)
  show "distinct (map fst (group_records h records))"
    by (rule group_records_distinct)
  show "fst ` set (group_records h records) = (\<lambda>r. merge_key (h r)) ` set records"
  proof -
    have "fst ` set (group_records h records) = dom (map_of (group_records h records))"
      by (simp add: dom_map_of_conv_image_fst)
    also have "\<dots> = (\<lambda>r. merge_key (h r)) ` set records"
      by (auto simp: group_records_lookup dom_def split: if_splits)
    finally show ?thesis .
  qed
  show "\<forall>(k, items) \<in> set (group_records h records).
      items \<noteq> [] \<and> items = filter (\<lambda>r. merge_key (h r) = k) records"
  proof (clarify)
    fix k items
    assume "(k, items) \<in> set (group_records h records)"
    then have "map_of (group_records h records) k = Some items"
      using group_records_distinct [of h records] by simp
    then have k: "k \<in> (\<lambda>r. merge_key (h r)) ` set records"
      and items: "items = filter (\<lambda>r. merge_key (h r) = k) records"
      by (auto simp: group_records_lookup split: if_splits)
    from k obtain r where "r \<in> set records" "merge_key (h r) = k" by auto
    then have "r \<in> set (filter (\<lambda>r. merge_key (h r) = k) records)" by simp
    then have "filter (\<lambda>r. merge_key (h r) = k) records \<noteq> []"
      by (metis empty_iff empty_set)
    with items show "items \<noteq> [] \<and> items = filter (\<lambda>r. merge_key (h r) = k) records"
      by simp
  qed
qed

section \<open>What merging writes\<close>

lemma absorb_other: "r \<noteq> current \<Longrightarrow> absorb h current next_item r = h r"
  by (simp add: absorb_def Let_def)

lemma absorb_raw:
  "source (absorb h current next_item r) = source (h r)"
  "employer (absorb h current next_item r) = employer (h r)"
  "start_date (absorb h current next_item r) = start_date (h r)"
  by (cases "r = current"; simp add: absorb_def Let_def)+

lemma merge_run_out:
  "\<exists>ys. fst (merge_run h current items merged) = merged @ ys \<and> set ys \<subseteq> set (current # items)
     \<and> ys \<noteq> []"
proof (induction h current items merged rule: merge_run.induct)
  case (1 h current merged)
  then show ?case by simp
next
  case (2 h current next_item items merged)
  show ?case
  proof (cases "overlaps (h current) (h next_item)")
    case True
    with 2 show ?thesis by (cases "reaches_later (h current) (h next_item)") auto
  next
    case False
    with "2.IH"(3) obtain ys where
      "fst (merge_run h next_item items (merged @ [current])) = (merged @ [current]) @ ys"
      "set ys \<subseteq> set (next_item # items)"
      by blast
    then have "fst (merge_run h current (next_item # items) merged) = merged @ (current # ys)
        \<and> set (current # ys) \<subseteq> set (current # next_item # items) \<and> current # ys \<noteq> []"
      using False by auto
    then show ?thesis by blast
  qed
qed

lemma merge_run_current_out: "current \<in> set (fst (merge_run h current items merged))"
proof (induction h current items merged rule: merge_run.induct)
  case (1 h current merged)
  then show ?case by simp
next
  case (2 h current next_item items merged)
  show ?case
  proof (cases "overlaps (h current) (h next_item)")
    case True
    with 2 show ?thesis by (cases "reaches_later (h current) (h next_item)") auto
  next
    case False
    from merge_run_out [of h next_item items "merged @ [current]"]
    have "current \<in> set (fst (merge_run h next_item items (merged @ [current])))" by auto
    with False show ?thesis by simp
  qed
qed

lemma merge_run_untouched:
  "r \<notin> set (current # items) \<Longrightarrow> snd (merge_run h current items merged) r = h r"
proof (induction h current items merged rule: merge_run.induct)
  case (1 h current merged)
  then show ?case by simp
next
  case (2 h current next_item items merged)
  show ?case
  proof (cases "overlaps (h current) (h next_item)")
    case True
    with 2 show ?thesis
      by (cases "reaches_later (h current) (h next_item)") (auto simp: absorb_other)
  next
    case False
    with 2 show ?thesis by auto
  qed
qed

lemma merge_run_not_returned:
  "r \<notin> set (fst (merge_run h current items merged)) \<Longrightarrow>
   snd (merge_run h current items merged) r = h r"
proof (induction h current items merged rule: merge_run.induct)
  case (1 h current merged)
  then show ?case by simp
next
  case (2 h current next_item items merged)
  show ?case
  proof (cases "overlaps (h current) (h next_item)")
    case True
    show ?thesis
    proof (cases "reaches_later (h current) (h next_item)")
      case r: True
      from "2.prems" True r
      have nr: "r \<notin> set (fst (merge_run (absorb h current next_item) current items merged))"
        by simp
      with merge_run_current_out [of current "absorb h current next_item" items merged]
      have "r \<noteq> current" by auto
      with "2.IH"(1) [OF True r nr] True r show ?thesis by (simp add: absorb_other)
    next
      case r: False
      with 2 True show ?thesis by simp
    qed
  next
    case False
    with 2 show ?thesis by simp
  qed
qed

lemma merge_run_raw:
  "source (snd (merge_run h current items merged) r) = source (h r)
   \<and> employer (snd (merge_run h current items merged) r) = employer (h r)
   \<and> start_date (snd (merge_run h current items merged) r) = start_date (h r)"
proof (induction h current items merged rule: merge_run.induct)
  case (1 h current merged)
  then show ?case by simp
next
  case (2 h current next_item items merged)
  show ?case
  proof (cases "overlaps (h current) (h next_item)")
    case True
    with 2 show ?thesis
      by (cases "reaches_later (h current) (h next_item)") (simp_all add: absorb_raw)
  next
    case False
    with 2 show ?thesis by simp
  qed
qed

lemma insort_by_set: "set (insort_by f x ys) = insert x (set ys)"
  by (induction ys) auto

lemma sorted_by_set: "set (sorted_by f xs) = set xs"
  by (induction xs) (simp_all add: sorted_by_def insort_by_set)

lemma merge_groups_frame:
  "(\<exists>ys. fst (merge_groups h groups merged) = merged @ ys \<and> set ys \<subseteq> group_refs groups)
   \<and> (\<forall>r. r \<notin> group_refs groups \<longrightarrow> snd (merge_groups h groups merged) r = h r)
   \<and> (\<forall>r. r \<notin> set (fst (merge_groups h groups merged)) \<longrightarrow>
          snd (merge_groups h groups merged) r = h r)
   \<and> (\<forall>r. source (snd (merge_groups h groups merged) r) = source (h r)
        \<and> employer (snd (merge_groups h groups merged) r) = employer (h r)
        \<and> start_date (snd (merge_groups h groups merged) r) = start_date (h r))"
proof (induction h groups merged rule: merge_groups.induct)
  case (1 h merged)
  then show ?case by (simp add: group_refs_def)
next
  case (2 h k items groups merged)
  show ?case
  proof (cases "sorted_by (start_key h) items")
    case Nil
    with "2.IH"(1) [OF Nil] show ?thesis
      by (auto simp: group_refs_def)
  next
    case (Cons current rest)
    obtain merged' h' where run: "merge_run h current rest merged = (merged', h')"
      by (cases "merge_run h current rest merged")
    have refs: "set (current # rest) = set items"
      using sorted_by_set [of "start_key h" items] Cons by simp
    from merge_run_out [of h current rest merged] run obtain ys where
      ys: "merged' = merged @ ys" "set ys \<subseteq> set items"
      using refs by auto
    have step: "merge_groups h ((k, items) # groups) merged = merge_groups h' groups merged'"
      using Cons run by simp
    from "2.IH"(2) [OF Cons run [symmetric]] obtain zs where
      zs: "fst (merge_groups h' groups merged') = merged' @ zs" "set zs \<subseteq> group_refs groups"
      and fr1: "\<forall>r. r \<notin> group_refs groups \<longrightarrow> snd (merge_groups h' groups merged') r = h' r"
      and fr2: "\<forall>r. r \<notin> set (fst (merge_groups h' groups merged')) \<longrightarrow>
          snd (merge_groups h' groups merged') r = h' r"
      and raw: "\<forall>r. source (snd (merge_groups h' groups merged') r) = source (h' r)
        \<and> employer (snd (merge_groups h' groups merged') r) = employer (h' r)
        \<and> start_date (snd (merge_groups h' groups merged') r) = start_date (h' r)"
      by blast
    have gr: "group_refs ((k, items) # groups) = set items \<union> group_refs groups"
      by (simp add: group_refs_def)
    have a: "\<exists>ys. fst (merge_groups h ((k, items) # groups) merged) = merged @ ys
        \<and> set ys \<subseteq> group_refs ((k, items) # groups)"
    proof -
      have "fst (merge_groups h ((k, items) # groups) merged) = merged @ (ys @ zs)"
        using step zs(1) ys(1) by simp
      moreover have "set (ys @ zs) \<subseteq> group_refs ((k, items) # groups)"
        using ys(2) zs(2) gr by auto
      ultimately show ?thesis by blast
    qed
    have b: "\<forall>r. r \<notin> group_refs ((k, items) # groups) \<longrightarrow>
        snd (merge_groups h ((k, items) # groups) merged) r = h r"
    proof (intro allI impI)
      fix r assume "r \<notin> group_refs ((k, items) # groups)"
      then have "r \<notin> set (current # rest)" "r \<notin> group_refs groups"
        using gr refs by auto
      with merge_run_untouched [of r current rest h merged] run fr1
      show "snd (merge_groups h ((k, items) # groups) merged) r = h r"
        using step by simp
    qed
    have c: "\<forall>r. r \<notin> set (fst (merge_groups h ((k, items) # groups) merged)) \<longrightarrow>
        snd (merge_groups h ((k, items) # groups) merged) r = h r"
    proof (intro allI impI)
      fix r assume "r \<notin> set (fst (merge_groups h ((k, items) # groups) merged))"
      then have nr: "r \<notin> set (fst (merge_groups h' groups merged'))"
        using step by simp
      then have "r \<notin> set merged'" using zs(1) by simp
      with merge_run_not_returned [of r h current rest merged] run have "h' r = h r" by simp
      with fr2 nr show "snd (merge_groups h ((k, items) # groups) merged) r = h r"
        using step by simp
    qed
    have d: "\<forall>r. source (snd (merge_groups h ((k, items) # groups) merged) r) = source (h r)
        \<and> employer (snd (merge_groups h ((k, items) # groups) merged) r) = employer (h r)
        \<and> start_date (snd (merge_groups h ((k, items) # groups) merged) r) = start_date (h r)"
      using raw merge_run_raw [of h current rest merged] run step by simp
    from a b c d show ?thesis by blast
  qed
qed

lemma group_records_refs: "group_refs (group_records h records) = set records"
proof -
  have "\<And>r. r \<in> group_refs (group_records h records) \<longleftrightarrow> r \<in> set records"
  proof
    fix r assume "r \<in> group_refs (group_records h records)"
    then obtain k items where "(k, items) \<in> set (group_records h records)" "r \<in> set items"
      by (auto simp: group_refs_def)
    with groups_by_trimmed_lowercase_employer [of h records]
    show "r \<in> set records" by auto
  next
    fix r assume r: "r \<in> set records"
    then have "merge_key (h r) \<in> fst ` set (group_records h records)"
      using groups_by_trimmed_lowercase_employer [of h records] by auto
    then obtain items where m: "(merge_key (h r), items) \<in> set (group_records h records)"
      by auto
    with groups_by_trimmed_lowercase_employer [of h records]
    have "items = filter (\<lambda>r'. merge_key (h r') = merge_key (h r)) records" by auto
    with r have "r \<in> set items" by simp
    with m show "r \<in> group_refs (group_records h records)"
      by (auto simp: group_refs_def)
  qed
  then show ?thesis by blast
qed

text \<open>
  C6, amended. Merging writes to the records it is given: absorption assigns
  \<open>end_date\<close> and \<open>issue_date\<close> of the running record and recomputes its derived fields.
  What it leaves alone: every record that is not returned is unchanged, no record's
  source, employer or start date changes, and a run writes to no record outside the
  running record and the records still to come, so a record is not written after it is
  emitted unless the same object comes again.
\<close>

theorem merge_mutates_only_returned_records:
  "set (fst (merge_overlapping_records h records)) \<subseteq> set records
   \<and> (\<forall>r. r \<notin> set (fst (merge_overlapping_records h records)) \<longrightarrow>
          snd (merge_overlapping_records h records) r = h r)
   \<and> (\<forall>r. source (snd (merge_overlapping_records h records) r) = source (h r)
        \<and> employer (snd (merge_overlapping_records h records) r) = employer (h r)
        \<and> start_date (snd (merge_overlapping_records h records) r) = start_date (h r))
   \<and> (\<forall>r. r \<notin> set (current # items) \<longrightarrow> snd (merge_run h0 current items merged) r = h0 r)"
  using merge_groups_frame [of h "group_records h records" "[]"]
    merge_run_untouched [of _ current items h0 merged]
  by (auto simp: merge_overlapping_records_def group_records_refs)


section \<open>Merging: evaluation\<close>

lemmas date_defs = d_2020_01_01_def d_2020_01_05_def d_2020_01_10_def d_2020_01_20_def
  d_2020_12_31_def d_2020_06_30_def d_2020_03_01_def

lemmas ordinal_defs = days_between_def toordinal_def days_before_year_def days_before_month_def
  is_leap_def

lemma short_stay_fields:
  "employer short_stay = Some ''XYZ S.A.''" "start_date short_stay = Some d_2020_01_01"
  "end_date short_stay = Some d_2020_01_10" "issue_date short_stay = Some d_2020_01_20"
  "effective_end_date short_stay = Some d_2020_01_10" "experience_days short_stay = Some 10"
  by (simp_all add: short_stay_def new_ExperienceRecord_derived compute_effective_end_cases
      compute_days_def date_lt_def date_defs ordinal_defs)

lemma open_stay_fields:
  "employer open_stay = Some ''XYZ S.A.''" "start_date open_stay = Some d_2020_01_05"
  "end_date open_stay = None" "issue_date open_stay = Some d_2020_12_31"
  "effective_end_date open_stay = Some d_2020_12_31" "experience_days open_stay = Some 362"
  by (simp_all add: open_stay_def new_ExperienceRecord_derived compute_effective_end_cases
      compute_days_def date_lt_def date_defs ordinal_defs)

lemma key_xyz: "merge_key short_stay = ''xyz s.a.''" "merge_key open_stay = ''xyz s.a.''"
  by (simp_all add: merge_key_def short_stay_fields open_stay_fields lower_def lower_char_def
      is_upper_def in_range_def strip_def isspace_def)

lemma heap_xyz_at: "heap_xyz 0 = short_stay" "heap_xyz (Suc 0) = open_stay"
  by (simp_all add: heap_xyz_def)

lemma group_xyz: "group_records heap_xyz [0, Suc 0] = [(''xyz s.a.'', [0, Suc 0])]"
  by (simp add: group_records_def heap_xyz_at key_xyz)

lemma sorted_xyz: "sorted_by (start_key heap_xyz) [0, Suc 0] = [0, Suc 0]"
  by (simp add: sorted_by_def start_key_def heap_xyz_at short_stay_fields open_stay_fields
      date_lt_def date_defs)

lemma merge_xyz:
  "merge_overlapping_records heap_xyz [0, Suc 0] = ([0], absorb heap_xyz 0 (Suc 0))"
  by (simp add: merge_overlapping_records_def group_xyz sorted_xyz overlaps_def reaches_later_def
      heap_xyz_at short_stay_fields open_stay_fields date_le_def date_lt_def date_defs)

lemma absorb_xyz:
  "absorb heap_xyz 0 (Suc 0) 0 = new_ExperienceRecord ''Certificado: 1.pdf'' (Some ''XYZ S.A.'')
     (Some d_2020_01_01) (Some d_2020_01_10) (Some d_2020_12_31)"
  by (simp add: absorb_def heap_xyz_at Let_def or_date_def short_stay_fields open_stay_fields)
    (simp add: short_stay_def new_ExperienceRecord_def post_init_def Let_def)

text \<open>
  C8 at a concrete input. The two records overlap, and the second reaches later, so the
  first absorbs it: it keeps its own end date, since the second has none, and takes the
  issue date of the second. Its effective end date is the earlier of the two, its own end
  date as before, and the one record returned counts 10 days where the absorbed record
  counted 362.
\<close>

theorem merged_days_below_absorbed_record:
  "overlaps (heap_xyz 0) (heap_xyz 1)
   \<and> experience_days (heap_xyz 0) = Some 10
   \<and> experience_days (heap_xyz 1) = Some 362
   \<and> fst (merge_overlapping_records heap_xyz [0, 1]) = [0]
   \<and> experience_days (snd (merge_overlapping_records heap_xyz [0, 1]) 0) = Some 10"
  by (simp add: merge_xyz absorb_xyz new_ExperienceRecord_derived compute_effective_end_cases
      compute_days_def)
    (simp add: heap_xyz_at short_stay_fields open_stay_fields overlaps_def date_le_def
      date_lt_def date_defs ordinal_defs)


lemma heap_acme_at: "heap_acme 0 = acme_first" "heap_acme (Suc 0) = acme_second"
  by (simp_all add: heap_acme_def)

lemma heap_names_at: "heap_names 0 = accented" "heap_names (Suc 0) = unaccented"
  by (simp_all add: heap_names_def)

lemma acme_first_fields:
  "employer acme_first = Some '' ACME ''" "start_date acme_first = Some d_2020_01_01"
  "end_date acme_first = Some d_2020_06_30" "issue_date acme_first = Some d_2020_06_30"
  "effective_end_date acme_first = Some d_2020_06_30"
  by (simp_all add: acme_first_def new_ExperienceRecord_derived compute_effective_end_cases
      date_lt_def date_defs)

lemma acme_second_fields:
  "employer acme_second = Some ''Acme''" "start_date acme_second = Some d_2020_03_01"
  "end_date acme_second = Some d_2020_12_31" "issue_date acme_second = Some d_2020_12_31"
  "effective_end_date acme_second = Some d_2020_12_31"
  by (simp_all add: acme_second_def new_ExperienceRecord_derived compute_effective_end_cases
      date_lt_def date_defs)

lemma key_acme: "merge_key acme_first = ''acme''" "merge_key acme_second = ''acme''"
  by (simp_all add: merge_key_def acme_first_fields acme_second_fields lower_def lower_char_def
      is_upper_def in_range_def strip_def isspace_def)

lemma group_acme: "group_records heap_acme [0, Suc 0] = [(''acme'', [0, Suc 0])]"
  by (simp add: group_records_def heap_acme_at key_acme)

lemma sorted_acme: "sorted_by (start_key heap_acme) [0, Suc 0] = [0, Suc 0]"
  by (simp add: sorted_by_def start_key_def heap_acme_at acme_first_fields acme_second_fields
      date_lt_def date_defs)

lemma merge_acme:
  "merge_overlapping_records heap_acme [0, Suc 0] = ([0], absorb heap_acme 0 (Suc 0))"
  by (simp add: merge_overlapping_records_def group_acme sorted_acme overlaps_def
      reaches_later_def heap_acme_at acme_first_fields acme_second_fields date_le_def date_lt_def
      date_defs)

lemma absorb_acme:
  "absorb heap_acme 0 (Suc 0) 0 = new_ExperienceRecord ''Certificado: 1.pdf'' (Some '' ACME '')
     (Some d_2020_01_01) (Some d_2020_12_31) (Some d_2020_12_31)"
  "absorb heap_acme 0 (Suc 0) (Suc 0) = acme_second"
  by (simp add: absorb_def heap_acme_at Let_def or_date_def acme_first_fields acme_second_fields,
      simp add: acme_first_def new_ExperienceRecord_def post_init_def Let_def)
    (simp add: absorb_def heap_acme_at Let_def)

text \<open>
  C6, as stated, fails: the first record of the input list absorbs the second, and its
  end date and issue date after the call are those of the second.
\<close>

theorem merge_overwrites_input_record:
  "end_date (heap_acme 0) = Some d_2020_06_30
   \<and> issue_date (heap_acme 0) = Some d_2020_06_30
   \<and> end_date (snd (merge_overlapping_records heap_acme [0, 1]) 0) = Some d_2020_12_31
   \<and> issue_date (snd (merge_overlapping_records heap_acme [0, 1]) 0) = Some d_2020_12_31"
  by (simp add: merge_acme absorb_acme heap_acme_at acme_first_fields)

lemma accented_fields:
  "employer accented = Some accented_name" "start_date accented = Some d_2020_01_01"
  "effective_end_date accented = Some d_2020_06_30"
  by (simp_all add: accented_def new_ExperienceRecord_derived compute_effective_end_cases
      date_lt_def date_defs)

lemma unaccented_fields:
  "employer unaccented = Some ''compania sa''" "start_date unaccented = Some d_2020_03_01"
  "effective_end_date unaccented = Some d_2020_12_31"
  by (simp_all add: unaccented_def new_ExperienceRecord_derived compute_effective_end_cases
      date_lt_def date_defs)

lemma key_names:
  "merge_key accented = ''compa'' @ [CHR 0xF1, CHR 0xED] @ ''a s.a.''"
  "merge_key unaccented = ''compania sa''"
  by (simp_all add: merge_key_def accented_fields unaccented_fields accented_name_def lower_def
      lower_char_def is_upper_def in_range_def strip_def isspace_def)

lemma normalize_names:
  "normalize_name (Some accented_name) = ''compania sa''"
  "normalize_name (Some ''compania sa'') = ''compania sa''"
  by (simp_all add: text_defs accented_name_def)

theorem merge_mutates_only_returned_records_witness:
  "fst (merge_overlapping_records heap_acme [0, 1]) = [0]
   \<and> snd (merge_overlapping_records heap_acme [0, 1]) 1 = heap_acme 1
   \<and> employer (snd (merge_overlapping_records heap_acme [0, 1]) 0) = Some '' ACME ''
   \<and> start_date (snd (merge_overlapping_records heap_acme [0, 1]) 0) = Some d_2020_01_01
   \<and> snd (merge_run heap_acme 0 [1] [2]) 2 = heap_acme 2"
proof -
  note fr = merge_mutates_only_returned_records [of heap_acme "[0, 1]" 0 "[1]" heap_acme "[2]"]
  have out: "fst (merge_overlapping_records heap_acme [0, 1]) = [0]"
    by (simp add: merge_acme)
  from fr have "(1::nat) \<notin> set (fst (merge_overlapping_records heap_acme [0, 1])) \<longrightarrow>
      snd (merge_overlapping_records heap_acme [0, 1]) 1 = heap_acme 1"
    by blast
  with out have a: "snd (merge_overlapping_records heap_acme [0, 1]) 1 = heap_acme 1"
    by simp
  from fr have "employer (snd (merge_overlapping_records heap_acme [0, 1]) 0) = employer (heap_acme 0)"
    "start_date (snd (merge_overlapping_records heap_acme [0, 1]) 0) = start_date (heap_acme 0)"
    by blast+
  then have b: "employer (snd (merge_overlapping_records heap_acme [0, 1]) 0) = Some '' ACME ''"
    "start_date (snd (merge_overlapping_records heap_acme [0, 1]) 0) = Some d_2020_01_01"
    by (simp_all add: heap_acme_at acme_first_fields)
  from fr have "(2::nat) \<notin> set [0, 1] \<longrightarrow> snd (merge_run heap_acme 0 [1] [2]) 2 = heap_acme 2"
    by blast
  then have c: "snd (merge_run heap_acme 0 [1] [2]) 2 = heap_acme 2" by simp
  from out a b c show ?thesis by blast
qed

lemma group_names:
  "group_records heap_names [0, Suc 0] =
     [(''compa'' @ [CHR 0xF1, CHR 0xED] @ ''a s.a.'', [0]), (''compania sa'', [Suc 0])]"
  by (simp add: group_records_def heap_names_at key_names)

lemma sorted_by_single: "sorted_by f [x] = [x]"
  by (simp add: sorted_by_def)

lemma merge_names:
  "merge_overlapping_records heap_names [0, Suc 0] = ([0, Suc 0], heap_names)"
  by (simp add: merge_overlapping_records_def group_names sorted_by_single)

text \<open>
  C5, as stated, fails: the two names have one normalized form, the date ranges overlap,
  and the records still land in two groups and come back as two records.
\<close>

theorem accented_names_grouped_apart:
  "normalize_name (employer (heap_names 0)) = normalize_name (employer (heap_names 1))
   \<and> overlaps (heap_names 0) (heap_names 1)
   \<and> map snd (group_records heap_names [0, 1]) = [[0], [1]]
   \<and> fst (merge_overlapping_records heap_names [0, 1]) = [0, 1]"
  by (simp add: heap_names_at accented_fields unaccented_fields normalize_names overlaps_def
      date_le_def date_lt_def date_defs merge_names group_names)

theorem groups_by_trimmed_lowercase_employer_witness:
  "employer (heap_acme 0) = Some '' ACME '' \<and> employer (heap_acme 1) = Some ''Acme''
   \<and> group_records heap_acme [0, 1] = [(''acme'', [0, 1])]"
proof -
  note g = groups_by_trimmed_lowercase_employer [of heap_acme "[0, 1]"]
  have k: "(\<lambda>r. merge_key (heap_acme r)) ` set [0, 1] = {''acme''}"
    by (simp add: heap_acme_at key_acme)
  from g k have keys: "fst ` set (group_records heap_acme [0, 1]) = {''acme''}"
    and d: "distinct (map fst (group_records heap_acme [0, 1]))"
    by simp_all
  have "group_records heap_acme [0, 1] = [(''acme'', [0, 1])]"
    by (simp add: group_acme)
  then show ?thesis
    using keys by (simp add: heap_acme_at acme_first_fields acme_second_fields)
qed



section \<open>Reading dates: evaluation\<close>

lemmas engine_defs = re_match_def rep_matches_def ci_def one_of_def word_def digits_def
  spaces_def letters_def sep_def nonzero_digit_def is_digit_def in_range_def lower_char_def
  is_upper_def isspace_def upt_rec

lemma strptime_01_01_55:
  "strptime ''01/01/55'' [Pd, Lit CHR ''/'', Pm, Lit CHR ''/'', PY] = Inl ValueError"
  "strptime ''01/01/55'' [Pd, Lit CHR ''-'', Pm, Lit CHR ''-'', PY] = Inl ValueError"
  "strptime ''01/01/55'' [Pd, Lit CHR ''/'', Pm, Lit CHR ''/'', Py]
     = Inr \<lparr>year = 2055, month = 1, day = 1\<rparr>"
  by (simp_all add: strptime_def engine_defs py_int_def digit_value_def strip_def mk_date_def
      valid_date_def days_in_month_def)

text \<open>
  C7 at a concrete input. The span \<open>01/01/55\<close> is read by the format \<open>%d/%m/%y\<close>, and
  \<open>strptime\<close> has already placed the year in the 2000s; the year is not below 100 when
  \<open>_parse_numeric_date\<close> tests it, and the date is 1 January 2055.
\<close>

theorem two_digit_year_55_is_2055:
  "parse_numeric_date ''01/01/55'' = Some \<lparr>year = 2055, month = 1, day = 1\<rparr>"
  by (simp add: parse_numeric_date_def numeric_formats_def strptime_01_01_55 mk_date_def
      valid_date_def days_in_month_def)

lemma feb31_numeric: "parse_numeric_date feb31 = None"
  by (simp add: parse_numeric_date_def numeric_formats_def strptime_def engine_defs feb31_def)

lemma feb31_spanish_match:
  "re_match spanish_day_first feb31
     = Some ([''31'', '' '', ''de '', ''febrero'', '' '', ''de'', '' '', ''2020''], [])"
  by (simp add: spanish_day_first_def spanish_prefix_def engine_defs feb31_def)

lemma feb31_spanish: "parse_spanish_date feb31 = Inl ValueError"
  by (simp add: parse_spanish_date_def feb31_spanish_match MONTHS_def lower_def lower_char_def
      is_upper_def in_range_def py_int_def digit_value_def strip_def isspace_def mk_date_def
      valid_date_def days_in_month_def is_leap_def)

lemma feb31_strip: "strip feb31 = feb31"
  by (simp add: strip_def isspace_def in_range_def feb31_def)

lemma feb31_parse_date: "parse_date feb31 = Inl ValueError"
  by (simp add: parse_date_def feb31_strip feb31_numeric feb31_spanish)

lemma feb31_pattern: "re_match DATE_PATTERN feb31 = Some ([feb31], [])"
  by (simp add: DATE_PATTERN_def spanish_prefix_def engine_defs feb31_def)

lemma feb31_finditer: "finditer DATE_PATTERN 0 feb31 = [(0, 21, feb31)]"
proof -
  have "feb31 \<noteq> []" "length feb31 = 21" by (simp_all add: feb31_def)
  then show ?thesis
    by (subst finditer.simps) (simp add: feb31_pattern finditer.simps)
qed

lemma feb31_sections: "split_into_sections feb31 = [[feb31]]"
  by (simp add: split_into_sections_def splitlines_def is_linebreak_def in_range_def strip_def
      isspace_def feb31_def)

lemma contains_empty: "kw \<noteq> [] \<Longrightarrow> \<not> contains [] kw"
  by simp

lemma feb31_no_keyword:
  "find_first_matching_date feb31 KEYWORDS_start Before = Inr None"
  "find_first_matching_date feb31 KEYWORDS_end Before = Inr None"
  "find_first_matching_date feb31 KEYWORDS_issue Before = Inr None"
  by (simp_all add: find_first_matching_date_def feb31_finditer KEYWORDS_start_def
      KEYWORDS_end_def KEYWORDS_issue_def)

lemma feb31_issue: "extract_issue_date [feb31] = Inl ValueError"
  by (simp add: extract_issue_date_def feb31_finditer feb31_parse_date)

text \<open>
  C9 at a concrete input. The text is one section with one date span, preceded by no
  keyword; the span is read as the issue date of the section, no numeric format takes
  it, the first pattern of \<open>_parse_spanish_date\<close> does, and \<open>date(2020, 2, 31)\<close> raises.
\<close>

theorem impossible_day_raises:
  "parse_experiences_from_text ''31 de febrero de 2020'' ''Certificado'' = Inl ValueError"
  using feb31_sections feb31_no_keyword feb31_issue
  by (simp add: parse_experiences_from_text_def feb31_def [symmetric])


end
